theory Spec2Isabelle
  imports Main "HOL-Library.Word"
begin

unbundle bit_operations_syntax

section \<open>The change ledger of \<^verbatim>\<open>common/commit.cpp\<close> (class COMMIT)\<close>

text \<open>
  The class COMMIT records the additions, removals and modifications staged during one
  edit transaction. The model follows \<^verbatim>\<open>src/common/commit.cpp\<close> function by function.

  \<^item> A pointer is the identity of the object it points to, a natural number; the null
    pointer is 0.
  \<^item> A \<^verbatim>\<open>delete\<close> expression appends the object to the log \<open>released\<close>, so that an
    object released twice occurs twice in the log.
  \<^item> A failed \<^verbatim>\<open>wxASSERT\<close> or \<^verbatim>\<open>wxFAIL\<close> reports the violated contract and the code goes
    on with the next statement, as \<^verbatim>\<open>wxASSERT( clone ); if( clone )\<close> at lines 71 to 73
    expects; the reports are kept in the log \<open>reported\<close>.
  \<^item> A failed \<^verbatim>\<open>assert\<close> aborts: the result is \<open>Inl\<close> of the violated contract together
    with the ledger as it is at that point.
  \<^item> This is the build with the checks; under \<^verbatim>\<open>NDEBUG\<close> they are compiled out.
\<close>

subsection \<open>Data\<close>

type_synonym EDA_ITEM_ptr = nat
type_synonym BASE_SCREEN_ptr = nat

abbreviation nullptr :: nat where
  "nullptr \<equiv> 0"

type_synonym CHANGE_TYPE = "32 word"

text \<open>
  The enumeration \<^verbatim>\<open>CHANGE_TYPE\<close> is declared in \<^verbatim>\<open>commit.h\<close>, which is not among the
  sources: its enumerators are a parameter of every function that names one.
  \<open>CHT_TYPE\<close> masks the kind of a change, \<open>CHT_FLAGS\<close> its flags.
\<close>

record change_types =
  CHT_ADD :: CHANGE_TYPE
  CHT_REMOVE :: CHANGE_TYPE
  CHT_MODIFY :: CHANGE_TYPE
  CHT_TYPE :: CHANGE_TYPE
  CHT_DONE :: CHANGE_TYPE
  CHT_FLAGS :: CHANGE_TYPE

text \<open>
  What the code relies on: \<open>CHT_TYPE\<close> masks the three kinds, the flags lie outside
  that mask, the labels of the \<^verbatim>\<open>switch\<close> are distinct, and the kind \<open>CHT_MODIFY\<close> is a
  bit field of its own.
\<close>

definition independent_bit_fields :: "change_types \<Rightarrow> bool" where
  "independent_bit_fields K \<longleftrightarrow>
     CHT_ADD K AND CHT_TYPE K = CHT_ADD K \<and>
     CHT_REMOVE K AND CHT_TYPE K = CHT_REMOVE K \<and>
     CHT_MODIFY K AND CHT_TYPE K = CHT_MODIFY K \<and>
     CHT_FLAGS K AND CHT_TYPE K = 0 \<and>
     CHT_ADD K AND CHT_MODIFY K = 0 \<and>
     CHT_REMOVE K AND CHT_MODIFY K = 0 \<and>
     CHT_ADD K \<noteq> CHT_REMOVE K \<and>
     CHT_MODIFY K \<noteq> 0"

text \<open>
  The enumerators as KiCad's \<^verbatim>\<open>commit.h\<close> numbers them: one bit for each kind, one for
  the flag. They enter the examples only.
\<close>

definition kicad_change_types :: change_types where
  "kicad_change_types =
     \<lparr>CHT_ADD = 1, CHT_REMOVE = 2, CHT_MODIFY = 4, CHT_TYPE = 7, CHT_DONE = 8, CHT_FLAGS = 8\<rparr>"

text \<open>\<^verbatim>\<open>struct COMMIT_LINE\<close>: one staged change.\<close>

record COMMIT_LINE =
  m_item :: EDA_ITEM_ptr
  m_type :: CHANGE_TYPE
  m_copy :: EDA_ITEM_ptr
  m_screen :: BASE_SCREEN_ptr

text \<open>The contracts the code checks, by the line of the check.\<close>

datatype contract =
    ModifyWithDone      \<comment> \<open>line 51, \<^verbatim>\<open>wxASSERT\<close>: \<^verbatim>\<open>CHT_MODIFY\<close> and \<^verbatim>\<open>CHT_DONE\<close> together\<close>
  | AddOfChangedItem    \<comment> \<open>line 58, \<^verbatim>\<open>wxASSERT\<close>: \<^verbatim>\<open>CHT_ADD\<close> of an item of \<open>m_changedItems\<close>\<close>
  | NoClone             \<comment> \<open>line 71, \<^verbatim>\<open>wxASSERT\<close>: \<^verbatim>\<open>makeImage\<close> returned null\<close>
  | UnknownChangeType   \<comment> \<open>line 80, \<^verbatim>\<open>wxFAIL\<close>\<close>
  | LinkNotChanged      \<comment> \<open>line 109, \<^verbatim>\<open>assert\<close>: a link whose status is not \<^verbatim>\<open>CHANGED\<close>\<close>
  | CopyMismatch        \<comment> \<open>line 152, \<^verbatim>\<open>wxASSERT\<close>: a copy without \<^verbatim>\<open>CHT_MODIFY\<close>, or the converse\<close>
  | NoConversion        \<comment> \<open>line 197, \<^verbatim>\<open>assert( false )\<close> in \<^verbatim>\<open>convert\<close>\<close>

text \<open>
  The object: the members \<open>m_changes\<close> (a vector) and \<open>m_changedItems\<close> (a set of item
  pointers), and three fields for what is around it: \<open>released\<close>, the objects deleted so
  far; \<open>images\<close>, what the coming calls of \<^verbatim>\<open>makeImage\<close> return, in order; \<open>reported\<close>,
  the contracts whose \<^verbatim>\<open>wxASSERT\<close> or \<^verbatim>\<open>wxFAIL\<close> has failed so far.
\<close>

record COMMIT =
  m_changes :: "COMMIT_LINE list"
  m_changedItems :: "EDA_ITEM_ptr set"
  released :: "EDA_ITEM_ptr list"
  images :: "EDA_ITEM_ptr list"
  reported :: "contract list"

text \<open>
  The result of a function with an \<^verbatim>\<open>assert\<close>: \<open>Inl\<close> when the \<^verbatim>\<open>assert\<close> has aborted,
  with the ledger at that point, \<open>Inr\<close> of the ledger when the function returns.
\<close>

type_synonym result = "(contract \<times> COMMIT) + COMMIT"

definition state_of :: "result \<Rightarrow> COMMIT" where
  "state_of r = (case r of Inl (e, c) \<Rightarrow> c | Inr c \<Rightarrow> c)"

text \<open>
  \<^verbatim>\<open>COMMIT::COMMIT()\<close>: nothing staged, nothing released, nothing reported; the coming
  images are given.
\<close>

definition COMMIT_ctor :: "EDA_ITEM_ptr list \<Rightarrow> COMMIT" where
  "COMMIT_ctor imgs =
     \<lparr>m_changes = [], m_changedItems = {}, released = [], images = imgs, reported = []\<rparr>"

subsection \<open>What the sources do not hold\<close>

text \<open>
  Modelled from the spec: \<^verbatim>\<open>makeImage\<close> is pure virtual in \<^verbatim>\<open>commit.h\<close>. Given a parent
  it produces an owned clone of its current state, or fails; a failed clone is the null
  pointer. The clone is the next entry of \<open>images\<close>; with no entry left the clone fails.
\<close>

definition makeImage :: "COMMIT \<Rightarrow> EDA_ITEM_ptr \<Rightarrow> EDA_ITEM_ptr \<times> COMMIT" where
  "makeImage c aItem =
     (case images c of
        [] \<Rightarrow> (nullptr, c)
      | p # ps \<Rightarrow> (p, c\<lparr>images := ps\<rparr>))"

text \<open>
  \<^verbatim>\<open>wxASSERT\<close> and \<^verbatim>\<open>wxFAIL\<close> are macros of wxWidgets: a check that fails is reported to
  the assert handler, and the function goes on.
\<close>

definition wxASSERT :: "bool \<Rightarrow> contract \<Rightarrow> COMMIT \<Rightarrow> COMMIT" where
  "wxASSERT cond violated c = (if cond then c else c\<lparr>reported := reported c @ [violated]\<rparr>)"

definition wxFAIL :: "contract \<Rightarrow> COMMIT \<Rightarrow> COMMIT" where
  "wxFAIL violated c = c\<lparr>reported := reported c @ [violated]\<rparr>"

text \<open>A \<^verbatim>\<open>delete\<close> expression; deleting the null pointer does nothing.\<close>

definition delete :: "EDA_ITEM_ptr \<Rightarrow> COMMIT \<Rightarrow> COMMIT" where
  "delete p c = (if p = nullptr then c else c\<lparr>released := released c @ [p]\<rparr>)"

text \<open>
  Modelled from the spec: \<^verbatim>\<open>alg::delete_if\<close> of \<^verbatim>\<open>core/kicad_algo.h\<close> removes from the
  container every element the predicate holds for and keeps the others in their order.
  It is a container algorithm and calls no \<^verbatim>\<open>delete\<close> on a member of an element: a
  COMMIT_LINE does not release its \<open>m_copy\<close> when it goes, or the local \<^verbatim>\<open>ent\<close> of
  \<^verbatim>\<open>makeEntry\<close> would release the copy it has just stored, and the destructor of COMMIT
  would release every copy a second time.
\<close>

definition delete_if :: "'a list \<Rightarrow> ('a \<Rightarrow> bool) \<Rightarrow> 'a list" where
  "delete_if xs f = filter (\<lambda>x. \<not> f x) xs"

subsection \<open>\<^verbatim>\<open>makeEntry\<close>, \<^verbatim>\<open>createModified\<close>, \<^verbatim>\<open>findEntry\<close>\<close>

definition makeEntry ::
  "change_types \<Rightarrow> COMMIT \<Rightarrow> EDA_ITEM_ptr \<Rightarrow> CHANGE_TYPE \<Rightarrow> EDA_ITEM_ptr \<Rightarrow> BASE_SCREEN_ptr \<Rightarrow> COMMIT"
where
  "makeEntry K c aItem aType aCopy aScreen =
     (let c = wxASSERT ((aCopy \<noteq> nullptr) = (aType AND CHT_TYPE K = CHT_MODIFY K)) CopyMismatch c;
          changes =
            (if aItem \<in> m_changedItems c
             then delete_if (m_changes c)
                    (\<lambda>aEnt. m_item aEnt = aItem \<and> m_screen aEnt = aScreen)
             else m_changes c);
          ent = \<lparr>m_item = aItem, m_type = aType, m_copy = aCopy, m_screen = aScreen\<rparr>
      in c\<lparr>m_changedItems := insert aItem (m_changedItems c),
           m_changes := changes @ [ent]\<rparr>)"

definition createModified ::
  "change_types \<Rightarrow> (EDA_ITEM_ptr \<Rightarrow> EDA_ITEM_ptr) \<Rightarrow> COMMIT \<Rightarrow> EDA_ITEM_ptr \<Rightarrow> EDA_ITEM_ptr \<Rightarrow>
     CHANGE_TYPE \<Rightarrow> BASE_SCREEN_ptr \<Rightarrow> COMMIT"
where
  "createModified K parentObject c aItem aCopy aExtraFlags aScreen =
     (let parent = parentObject aItem in
      if parent \<in> m_changedItems c then delete aCopy c
      else makeEntry K c parent (CHT_MODIFY K OR aExtraFlags) aCopy aScreen)"

fun find_line :: "COMMIT_LINE list \<Rightarrow> EDA_ITEM_ptr \<Rightarrow> BASE_SCREEN_ptr \<Rightarrow> COMMIT_LINE option" where
  "find_line [] aItem aScreen = None"
| "find_line (change # rest) aItem aScreen =
     (if m_item change = aItem \<and> m_screen change = aScreen then Some change
      else find_line rest aItem aScreen)"

definition findEntry :: "COMMIT \<Rightarrow> EDA_ITEM_ptr \<Rightarrow> BASE_SCREEN_ptr \<Rightarrow> COMMIT_LINE option" where
  "findEntry c aItem aScreen = find_line (m_changes c) aItem aScreen"

subsection \<open>\<^verbatim>\<open>Stage\<close> of one item, \<^verbatim>\<open>GetStatus\<close>, the destructor\<close>

text \<open>
  \<^verbatim>\<open>parentObject\<close> is pure virtual and \<^verbatim>\<open>const\<close>: a parameter. Each \<^verbatim>\<open>wxASSERT\<close> stands
  where the source has it, and the statement after it runs whether it failed or not.
\<close>

definition Stage ::
  "change_types \<Rightarrow> (EDA_ITEM_ptr \<Rightarrow> EDA_ITEM_ptr) \<Rightarrow> COMMIT \<Rightarrow> EDA_ITEM_ptr \<Rightarrow> CHANGE_TYPE \<Rightarrow>
     BASE_SCREEN_ptr \<Rightarrow> COMMIT"
where
  "Stage K parentObject c aItem aChangeType aScreen =
     (let c = wxASSERT (aChangeType AND (CHT_MODIFY K OR CHT_DONE K) \<noteq> (CHT_MODIFY K OR CHT_DONE K))
                ModifyWithDone c;
          flag = aChangeType AND CHT_FLAGS K;
          kind = aChangeType AND CHT_TYPE K
      in if kind = CHT_ADD K then
           (let c = wxASSERT (aItem \<notin> m_changedItems c) AddOfChangedItem c
            in makeEntry K c aItem (CHT_ADD K OR flag) nullptr aScreen)
         else if kind = CHT_REMOVE K then
           makeEntry K c aItem (CHT_REMOVE K OR flag) nullptr aScreen
         else if kind = CHT_MODIFY K then
           (let parent = parentObject aItem;
                (clone, c) = makeImage c parent;
                c = wxASSERT (clone \<noteq> nullptr) NoClone c
            in if clone \<noteq> nullptr then createModified K parentObject c parent clone flag aScreen
               else c)
         else wxFAIL UnknownChangeType c)"

definition GetStatus ::
  "(EDA_ITEM_ptr \<Rightarrow> EDA_ITEM_ptr) \<Rightarrow> COMMIT \<Rightarrow> EDA_ITEM_ptr \<Rightarrow> BASE_SCREEN_ptr \<Rightarrow> CHANGE_TYPE \<times> COMMIT"
where
  "GetStatus parentObject c aItem aScreen =
     (case findEntry c (parentObject aItem) aScreen of
        Some entry \<Rightarrow> (m_type entry, c)
      | None \<Rightarrow> (0, c))"

fun delete_copies :: "COMMIT_LINE list \<Rightarrow> COMMIT \<Rightarrow> COMMIT" where
  "delete_copies [] c = c"
| "delete_copies (ent # rest) c =
     delete_copies rest (if m_copy ent \<noteq> nullptr then delete (m_copy ent) c else c)"

definition COMMIT_dtor :: "COMMIT \<Rightarrow> COMMIT" where
  "COMMIT_dtor c = delete_copies (m_changes c) c"

subsection \<open>\<^verbatim>\<open>Stage\<close> of a vector and of a PICKED_ITEMS_LIST\<close>

fun Stage_vector ::
  "change_types \<Rightarrow> (EDA_ITEM_ptr \<Rightarrow> EDA_ITEM_ptr) \<Rightarrow> COMMIT \<Rightarrow> EDA_ITEM_ptr list \<Rightarrow> CHANGE_TYPE \<Rightarrow>
     BASE_SCREEN_ptr \<Rightarrow> COMMIT"
where
  "Stage_vector K parentObject c [] aChangeType aScreen = c"
| "Stage_vector K parentObject c (item # container) aChangeType aScreen =
     Stage_vector K parentObject (Stage K parentObject c item aChangeType aScreen) container
       aChangeType aScreen"

text \<open>
  Modelled from the spec: the list of picked items is an ordered sequence of triples of an
  item, a status and an optional clone made already, with the statuses unspecified, new
  item, deleted item and changed. \<^verbatim>\<open>enum class UNDO_REDO\<close> and \<^verbatim>\<open>PICKED_ITEMS_LIST\<close> are
  declared in \<^verbatim>\<open>undo_redo_container.h\<close>, not among the sources; \<open>OTHER\<close> stands for every
  enumerator the code does not name. An entry of the list is what the three getters
  return for its index, and the loop over the indices is the recursion over the list.
\<close>

datatype UNDO_REDO = UNSPECIFIED | NEWITEM | DELETED | CHANGED | OTHER nat

record ITEM_PICKER =
  PickedItem :: EDA_ITEM_ptr
  PickedItemStatus :: UNDO_REDO
  PickedItemLink :: EDA_ITEM_ptr

fun convert :: "change_types \<Rightarrow> UNDO_REDO \<Rightarrow> contract + CHANGE_TYPE" where
  "convert K NEWITEM = Inr (CHT_ADD K)"
| "convert K DELETED = Inr (CHT_REMOVE K)"
| "convert K CHANGED = Inr (CHT_MODIFY K)"
| "convert K aType = Inl NoConversion"

text \<open>
  Modelled from the spec: \<^verbatim>\<open>Modified\<close> is defined in \<^verbatim>\<open>commit.h\<close>; it adopts the
  supplied snapshot through the create-modified path, with no extra flag.
\<close>

definition Modified ::
  "change_types \<Rightarrow> (EDA_ITEM_ptr \<Rightarrow> EDA_ITEM_ptr) \<Rightarrow> COMMIT \<Rightarrow> EDA_ITEM_ptr \<Rightarrow> EDA_ITEM_ptr \<Rightarrow>
     BASE_SCREEN_ptr \<Rightarrow> COMMIT"
where
  "Modified K parentObject c aItem aCopy aScreen = createModified K parentObject c aItem aCopy 0 aScreen"

definition Stage_picked_item ::
  "change_types \<Rightarrow> (EDA_ITEM_ptr \<Rightarrow> EDA_ITEM_ptr) \<Rightarrow> COMMIT \<Rightarrow> ITEM_PICKER \<Rightarrow> UNDO_REDO \<Rightarrow>
     BASE_SCREEN_ptr \<Rightarrow> result"
where
  "Stage_picked_item K parentObject c picked aModFlag aScreen =
     (let change_type = PickedItemStatus picked;
          item = PickedItem picked;
          change_type = (if change_type = UNSPECIFIED then aModFlag else change_type);
          copy = PickedItemLink picked
      in if copy \<noteq> nullptr then
           (if change_type \<noteq> CHANGED then Inl (LinkNotChanged, c)
            else Inr (Modified K parentObject c item copy aScreen))
         else
           (case convert K change_type of
              Inl failure \<Rightarrow> Inl (failure, c)
            | Inr kind \<Rightarrow> Inr (Stage K parentObject c item kind aScreen)))"

fun Stage_picked ::
  "change_types \<Rightarrow> (EDA_ITEM_ptr \<Rightarrow> EDA_ITEM_ptr) \<Rightarrow> COMMIT \<Rightarrow> ITEM_PICKER list \<Rightarrow> UNDO_REDO \<Rightarrow>
     BASE_SCREEN_ptr \<Rightarrow> result"
where
  "Stage_picked K parentObject c [] aModFlag aScreen = Inr c"
| "Stage_picked K parentObject c (picked # aItems) aModFlag aScreen =
     (case Stage_picked_item K parentObject c picked aModFlag aScreen of
        Inl failure \<Rightarrow> Inl failure
      | Inr c' \<Rightarrow> Stage_picked K parentObject c' aItems aModFlag aScreen)"

subsection \<open>The ledgers of a transaction\<close>

text \<open>
  The ledgers a transaction can be in: the new ledger, and the ledger any of the three
  overloads of \<^verbatim>\<open>Stage\<close> leaves, whether the call returns (with or without a report) or
  an \<^verbatim>\<open>assert\<close> aborts it.
\<close>

inductive reachable :: "change_types \<Rightarrow> (EDA_ITEM_ptr \<Rightarrow> EDA_ITEM_ptr) \<Rightarrow> COMMIT \<Rightarrow> bool"
  for K :: change_types and parentObject :: "EDA_ITEM_ptr \<Rightarrow> EDA_ITEM_ptr"
where
  ctor: "reachable K parentObject (COMMIT_ctor imgs)"
| stage: "reachable K parentObject c \<Longrightarrow>
    reachable K parentObject (Stage K parentObject c aItem aChangeType aScreen)"
| stage_vector: "reachable K parentObject c \<Longrightarrow>
    reachable K parentObject (Stage_vector K parentObject c container aChangeType aScreen)"
| stage_picked: "reachable K parentObject c \<Longrightarrow>
    reachable K parentObject (state_of (Stage_picked K parentObject c aItems aModFlag aScreen))"

text \<open>Every record is the record of an item of \<open>m_changedItems\<close>.\<close>

definition changed_items_cover :: "COMMIT \<Rightarrow> bool" where
  "changed_items_cover c \<longleftrightarrow> (\<forall>e \<in> set (m_changes c). m_item e \<in> m_changedItems c)"

subsection \<open>The copies a ledger owns\<close>

text \<open>
  The copies held by records, in the order of the records; the objects \<^verbatim>\<open>makeImage\<close> is
  still to produce; the objects a ledger has dealt or will deal with.
\<close>

definition copies :: "COMMIT_LINE list \<Rightarrow> EDA_ITEM_ptr list" where
  "copies changes = filter (\<lambda>p. p \<noteq> nullptr) (map m_copy changes)"

definition snapshots :: "COMMIT \<Rightarrow> EDA_ITEM_ptr list" where
  "snapshots c = copies (m_changes c)"

definition coming :: "COMMIT \<Rightarrow> EDA_ITEM_ptr list" where
  "coming c = filter (\<lambda>p. p \<noteq> nullptr) (images c)"

definition objects :: "COMMIT \<Rightarrow> EDA_ITEM_ptr set" where
  "objects c = set (snapshots c) \<union> set (released c) \<union> set (coming c)"

text \<open>
  Exclusive ownership: no object is held by two records, released twice, held and
  released, or both known already and still to be produced.
\<close>

definition exclusive :: "COMMIT \<Rightarrow> bool" where
  "exclusive c \<longleftrightarrow>
     distinct (snapshots c @ released c @ coming c) \<and> nullptr \<notin> set (released c)"

text \<open>
  A step from \<open>c\<close> to \<open>c'\<close> keeps ownership exclusive and brings in no object but those
  of \<open>new\<close>.
\<close>

definition keeps :: "COMMIT \<Rightarrow> EDA_ITEM_ptr set \<Rightarrow> COMMIT \<Rightarrow> bool" where
  "keeps c new c' \<longleftrightarrow> exclusive c' \<and> objects c' \<subseteq> objects c \<union> new"

text \<open>
  The ledgers of a transaction in which every clone is a new object: \<^verbatim>\<open>makeImage\<close>
  never produces an object twice, and a copy handed in from outside (\<^verbatim>\<open>Modified\<close>, the
  links of a list of picked items) is an object the ledger has not met.
\<close>

inductive owning :: "change_types \<Rightarrow> (EDA_ITEM_ptr \<Rightarrow> EDA_ITEM_ptr) \<Rightarrow> COMMIT \<Rightarrow> bool"
  for K :: change_types and parentObject :: "EDA_ITEM_ptr \<Rightarrow> EDA_ITEM_ptr"
where
  ctor: "distinct (filter (\<lambda>p. p \<noteq> nullptr) imgs) \<Longrightarrow> owning K parentObject (COMMIT_ctor imgs)"
| stage: "owning K parentObject c \<Longrightarrow>
    owning K parentObject (Stage K parentObject c aItem aChangeType aScreen)"
| stage_vector: "owning K parentObject c \<Longrightarrow>
    owning K parentObject (Stage_vector K parentObject c container aChangeType aScreen)"
| modified: "owning K parentObject c \<Longrightarrow> aCopy \<notin> objects c \<Longrightarrow>
    owning K parentObject (Modified K parentObject c aItem aCopy aScreen)"
| stage_picked: "owning K parentObject c \<Longrightarrow>
    distinct (filter (\<lambda>p. p \<noteq> nullptr) (map PickedItemLink aItems)) \<Longrightarrow>
    set (map PickedItemLink aItems) \<inter> objects c = {} \<Longrightarrow>
    owning K parentObject (state_of (Stage_picked K parentObject c aItems aModFlag aScreen))"

section \<open>Properties\<close>

subsection \<open>Kind and flags of a change type\<close>

lemma kind_of_or_flag:
  assumes "CHT_FLAGS K AND CHT_TYPE K = 0" "k AND CHT_TYPE K = k"
  shows "(k OR (t AND CHT_FLAGS K)) AND CHT_TYPE K = k"
proof -
  have "(t AND CHT_FLAGS K) AND CHT_TYPE K = t AND (CHT_FLAGS K AND CHT_TYPE K)"
    by (simp add: and.assoc)
  also have "\<dots> = 0" using assms(1) by simp
  finally show ?thesis using assms(2) by (simp add: bit.conj_disj_distrib2)
qed

lemma modify_done_ok:
  assumes "independent_bit_fields K" "t AND CHT_TYPE K = k" "k AND CHT_MODIFY K = 0"
  shows "t AND (CHT_MODIFY K OR CHT_DONE K) \<noteq> (CHT_MODIFY K OR CHT_DONE K)"
proof
  assume eq: "t AND (CHT_MODIFY K OR CHT_DONE K) = (CHT_MODIFY K OR CHT_DONE K)"
  have M: "CHT_MODIFY K AND CHT_TYPE K = CHT_MODIFY K" "CHT_MODIFY K \<noteq> 0"
    using assms(1) by (simp_all add: independent_bit_fields_def)
  have "(t AND (CHT_MODIFY K OR CHT_DONE K)) AND CHT_MODIFY K = t AND CHT_MODIFY K"
    by (simp add: and.assoc bit.conj_disj_distrib2)
  with eq have "t AND CHT_MODIFY K = CHT_MODIFY K"
    by (simp add: bit.conj_disj_distrib2)
  moreover have "t AND CHT_MODIFY K = (t AND CHT_TYPE K) AND CHT_MODIFY K"
    using M(1) by (metis and.assoc and.commute)
  ultimately show False using assms(2,3) M(2) by simp
qed

lemma kinds_distinct:
  assumes "independent_bit_fields K"
  shows "CHT_ADD K \<noteq> CHT_MODIFY K" "CHT_REMOVE K \<noteq> CHT_MODIFY K" "CHT_ADD K \<noteq> CHT_REMOVE K"
  using assms by (auto simp: independent_bit_fields_def)

subsection \<open>What one call does\<close>

lemma makeEntry_no_copy:
  assumes "aType AND CHT_TYPE K \<noteq> CHT_MODIFY K"
  shows "makeEntry K c aItem aType nullptr aScreen =
    c\<lparr>m_changedItems := insert aItem (m_changedItems c),
      m_changes := (if aItem \<in> m_changedItems c
                    then filter (\<lambda>e. \<not> (m_item e = aItem \<and> m_screen e = aScreen)) (m_changes c)
                    else m_changes c) @
                   [\<lparr>m_item = aItem, m_type = aType, m_copy = nullptr, m_screen = aScreen\<rparr>]\<rparr>"
  using assms by (simp add: makeEntry_def delete_if_def wxASSERT_def)

lemma makeEntry_copy:
  assumes "aType AND CHT_TYPE K = CHT_MODIFY K" "aCopy \<noteq> nullptr"
  shows "makeEntry K c aItem aType aCopy aScreen =
    c\<lparr>m_changedItems := insert aItem (m_changedItems c),
      m_changes := (if aItem \<in> m_changedItems c
                    then filter (\<lambda>e. \<not> (m_item e = aItem \<and> m_screen e = aScreen)) (m_changes c)
                    else m_changes c) @
                   [\<lparr>m_item = aItem, m_type = aType, m_copy = aCopy, m_screen = aScreen\<rparr>]\<rparr>"
  using assms by (simp add: makeEntry_def delete_if_def wxASSERT_def)

lemma Stage_Add:
  assumes K: "independent_bit_fields K" and t: "aChangeType AND CHT_TYPE K = CHT_ADD K"
  shows "Stage K parentObject c aItem aChangeType aScreen =
    (if aItem \<in> m_changedItems c
     then c\<lparr>m_changes :=
              filter (\<lambda>e. \<not> (m_item e = aItem \<and> m_screen e = aScreen)) (m_changes c) @
              [\<lparr>m_item = aItem, m_type = CHT_ADD K OR (aChangeType AND CHT_FLAGS K),
                m_copy = nullptr, m_screen = aScreen\<rparr>],
            reported := reported c @ [AddOfChangedItem]\<rparr>
     else c\<lparr>m_changedItems := insert aItem (m_changedItems c),
            m_changes := m_changes c @
              [\<lparr>m_item = aItem, m_type = CHT_ADD K OR (aChangeType AND CHT_FLAGS K),
                m_copy = nullptr, m_screen = aScreen\<rparr>]\<rparr>)"
proof -
  have 1: "aChangeType AND (CHT_MODIFY K OR CHT_DONE K) \<noteq> (CHT_MODIFY K OR CHT_DONE K)"
    using K t by (rule modify_done_ok) (use K in \<open>simp add: independent_bit_fields_def\<close>)
  have 2: "(CHT_ADD K OR (aChangeType AND CHT_FLAGS K)) AND CHT_TYPE K = CHT_ADD K"
    using K by (intro kind_of_or_flag) (simp_all add: independent_bit_fields_def)
  have 3: "(CHT_ADD K OR (aChangeType AND CHT_FLAGS K)) AND CHT_TYPE K \<noteq> CHT_MODIFY K"
    using 2 kinds_distinct(1)[OF K] by simp
  show ?thesis
    using 1 t by (simp add: Stage_def makeEntry_no_copy[OF 3] wxASSERT_def insert_absorb)
qed

lemma Stage_Remove:
  assumes K: "independent_bit_fields K" and t: "aChangeType AND CHT_TYPE K = CHT_REMOVE K"
  shows "Stage K parentObject c aItem aChangeType aScreen =
    c\<lparr>m_changedItems := insert aItem (m_changedItems c),
      m_changes := (if aItem \<in> m_changedItems c
                    then filter (\<lambda>e. \<not> (m_item e = aItem \<and> m_screen e = aScreen)) (m_changes c)
                    else m_changes c) @
                   [\<lparr>m_item = aItem, m_type = CHT_REMOVE K OR (aChangeType AND CHT_FLAGS K),
                     m_copy = nullptr, m_screen = aScreen\<rparr>]\<rparr>"
proof -
  have 1: "aChangeType AND (CHT_MODIFY K OR CHT_DONE K) \<noteq> (CHT_MODIFY K OR CHT_DONE K)"
    using K t by (rule modify_done_ok) (use K in \<open>simp add: independent_bit_fields_def\<close>)
  have 2: "(CHT_REMOVE K OR (aChangeType AND CHT_FLAGS K)) AND CHT_TYPE K = CHT_REMOVE K"
    using K by (intro kind_of_or_flag) (simp_all add: independent_bit_fields_def)
  have 3: "(CHT_REMOVE K OR (aChangeType AND CHT_FLAGS K)) AND CHT_TYPE K \<noteq> CHT_MODIFY K"
    using 2 kinds_distinct(2)[OF K] by simp
  have 4: "CHT_REMOVE K \<noteq> CHT_ADD K" using kinds_distinct(3)[OF K] by simp
  show ?thesis
    using 1 t 4 by (simp add: Stage_def makeEntry_no_copy[OF 3] wxASSERT_def)
qed

lemma createModified_eq:
  assumes K: "independent_bit_fields K" and f: "aExtraFlags AND CHT_TYPE K = 0"
    and copy: "aCopy \<noteq> nullptr"
  shows "createModified K parentObject c aItem aCopy aExtraFlags aScreen =
    (if parentObject aItem \<in> m_changedItems c
     then c\<lparr>released := released c @ [aCopy]\<rparr>
     else c\<lparr>m_changedItems := insert (parentObject aItem) (m_changedItems c),
            m_changes := m_changes c @
              [\<lparr>m_item = parentObject aItem, m_type = CHT_MODIFY K OR aExtraFlags,
                m_copy = aCopy, m_screen = aScreen\<rparr>]\<rparr>)"
proof -
  have "(CHT_MODIFY K OR aExtraFlags) AND CHT_TYPE K = CHT_MODIFY K"
    using K f by (simp add: bit.conj_disj_distrib2 independent_bit_fields_def)
  then show ?thesis
    using copy by (simp add: createModified_def Let_def delete_def makeEntry_copy)
qed

lemma Stage_Modify:
  assumes K: "independent_bit_fields K" and t: "aChangeType AND CHT_TYPE K = CHT_MODIFY K"
    and nd: "aChangeType AND (CHT_MODIFY K OR CHT_DONE K) \<noteq> (CHT_MODIFY K OR CHT_DONE K)"
  shows "Stage K parentObject c aItem aChangeType aScreen =
    (case images c of
       [] \<Rightarrow> c\<lparr>reported := reported c @ [NoClone]\<rparr>
     | clone # rest \<Rightarrow>
         if clone = nullptr then c\<lparr>images := rest, reported := reported c @ [NoClone]\<rparr>
         else createModified K parentObject (c\<lparr>images := rest\<rparr>) (parentObject aItem) clone
                (aChangeType AND CHT_FLAGS K) aScreen)"
  using nd t kinds_distinct[OF K]
  by (auto simp: Stage_def makeImage_def Let_def wxASSERT_def split: list.splits)

subsection \<open>Staging an addition\<close>

text \<open>
  Claim C4 says that \<^verbatim>\<open>Stage\<close> with kind \<open>CHT_ADD\<close> of an item that is already in
  \<open>m_changedItems\<close> is fatal. The check of line 58 is a \<^verbatim>\<open>wxASSERT\<close> and line 59 runs after
  it: item 5, added on screen 7 and added again on screen 3, is reported and has both
  records.
\<close>

theorem second_add_counterexample:
  "Stage kicad_change_types (\<lambda>x. x) (COMMIT_ctor []) 5 1 7 =
     \<lparr>m_changes = [\<lparr>m_item = 5, m_type = 1, m_copy = nullptr, m_screen = 7\<rparr>],
      m_changedItems = {5}, released = [], images = [], reported = []\<rparr> \<and>
   Stage kicad_change_types (\<lambda>x. x)
     \<lparr>m_changes = [\<lparr>m_item = 5, m_type = 1, m_copy = nullptr, m_screen = 7\<rparr>],
      m_changedItems = {5}, released = [], images = [], reported = []\<rparr> 5 1 3 =
     \<lparr>m_changes = [\<lparr>m_item = 5, m_type = 1, m_copy = nullptr, m_screen = 7\<rparr>,
                   \<lparr>m_item = 5, m_type = 1, m_copy = nullptr, m_screen = 3\<rparr>],
      m_changedItems = {5}, released = [], images = [], reported = [AddOfChangedItem]\<rparr>"
  by (simp add: Stage_def makeEntry_def delete_if_def wxASSERT_def COMMIT_ctor_def
      kicad_change_types_def)

text \<open>
  Claim C4, amended. In every ledger, \<^verbatim>\<open>Stage\<close> with kind \<open>CHT_ADD\<close> of an item that is
  already in \<open>m_changedItems\<close> violates a contract, and the violation is reported
  (\<open>AddOfChangedItem\<close>) without ending the call: the call goes on, removes the records of
  that item and screen and appends the new record, also for the second addition of one
  item. For an item that is not in the set, the call reports nothing, appends a record
  of kind \<open>CHT_ADD\<close> with the flags of the request and no copy, and puts the item into the
  set.
\<close>

theorem add_of_changed_item_is_reported:
  assumes "independent_bit_fields K"
    and "aChangeType AND CHT_TYPE K = CHT_ADD K"
    and "ent = \<lparr>m_item = aItem, m_type = CHT_ADD K OR (aChangeType AND CHT_FLAGS K),
                m_copy = nullptr, m_screen = aScreen\<rparr>"
  shows "(aItem \<in> m_changedItems c \<longrightarrow>
            Stage K parentObject c aItem aChangeType aScreen =
              c\<lparr>m_changes :=
                   filter (\<lambda>e. \<not> (m_item e = aItem \<and> m_screen e = aScreen)) (m_changes c) @ [ent],
                 reported := reported c @ [AddOfChangedItem]\<rparr>) \<and>
         (aItem \<notin> m_changedItems c \<longrightarrow>
            Stage K parentObject c aItem aChangeType aScreen =
              c\<lparr>m_changedItems := insert aItem (m_changedItems c),
                 m_changes := m_changes c @ [ent]\<rparr>) \<and>
         m_type ent AND CHT_TYPE K = CHT_ADD K"
proof -
  have "(CHT_ADD K OR (aChangeType AND CHT_FLAGS K)) AND CHT_TYPE K = CHT_ADD K"
    using assms(1) by (intro kind_of_or_flag) (simp_all add: independent_bit_fields_def)
  then show ?thesis
    using assms by (simp add: Stage_Add)
qed

theorem add_of_changed_item_is_reported_witness:
  "Stage kicad_change_types (\<lambda>x. x) (COMMIT_ctor []) 5 9 7 =
     \<lparr>m_changes = [\<lparr>m_item = 5, m_type = 9, m_copy = nullptr, m_screen = 7\<rparr>],
      m_changedItems = {5}, released = [], images = [], reported = []\<rparr> \<and>
   Stage kicad_change_types (\<lambda>x. x)
     \<lparr>m_changes = [\<lparr>m_item = 5, m_type = 9, m_copy = nullptr, m_screen = 7\<rparr>],
      m_changedItems = {5}, released = [], images = [], reported = []\<rparr> 5 1 7 =
     \<lparr>m_changes = [\<lparr>m_item = 5, m_type = 1, m_copy = nullptr, m_screen = 7\<rparr>],
      m_changedItems = {5}, released = [], images = [], reported = [AddOfChangedItem]\<rparr>"
proof -
  have K: "independent_bit_fields kicad_change_types"
    by (simp add: independent_bit_fields_def kicad_change_types_def)
  have a: "(9 :: CHANGE_TYPE) AND CHT_TYPE kicad_change_types = CHT_ADD kicad_change_types"
    and b: "(1 :: CHANGE_TYPE) AND CHT_TYPE kicad_change_types = CHT_ADD kicad_change_types"
    by (simp_all add: kicad_change_types_def)
  show ?thesis
    using add_of_changed_item_is_reported [OF K a refl, of 5 "COMMIT_ctor []" "\<lambda>x. x" 7]
      add_of_changed_item_is_reported [OF K b refl, of 5
        "\<lparr>m_changes = [\<lparr>m_item = 5, m_type = 9, m_copy = nullptr, m_screen = 7\<rparr>],
          m_changedItems = {5}, released = [], images = [], reported = []\<rparr>" "\<lambda>x. x" 7]
    by (simp add: COMMIT_ctor_def kicad_change_types_def)
qed

subsection \<open>A clone that cannot be produced\<close>

text \<open>
  Claim C7. When \<^verbatim>\<open>makeImage\<close> returns null during \<^verbatim>\<open>Stage\<close> with kind \<open>CHT_MODIFY\<close>, the
  call fails: it reports \<open>NoClone\<close> and returns with nothing staged. The ledger has the
  records, the set of changed items and the released objects it had before the call.
\<close>

theorem failed_clone_fails_stage:
  assumes "independent_bit_fields K"
    and "aChangeType AND CHT_TYPE K = CHT_MODIFY K"
    and "aChangeType AND (CHT_MODIFY K OR CHT_DONE K) \<noteq> (CHT_MODIFY K OR CHT_DONE K)"
    and "fst (makeImage c (parentObject aItem)) = nullptr"
  shows "Stage K parentObject c aItem aChangeType aScreen =
           (snd (makeImage c (parentObject aItem)))\<lparr>reported := reported c @ [NoClone]\<rparr> \<and>
         m_changes (Stage K parentObject c aItem aChangeType aScreen) = m_changes c \<and>
         m_changedItems (Stage K parentObject c aItem aChangeType aScreen) = m_changedItems c \<and>
         released (Stage K parentObject c aItem aChangeType aScreen) = released c"
  using assms by (auto simp: Stage_Modify makeImage_def split: list.splits)

theorem failed_clone_fails_stage_witness:
  "Stage kicad_change_types (\<lambda>x. x)
     \<lparr>m_changes = [\<lparr>m_item = 5, m_type = 9, m_copy = nullptr, m_screen = 7\<rparr>],
      m_changedItems = {5}, released = [], images = [nullptr, 100], reported = []\<rparr> 6 4 7 =
     \<lparr>m_changes = [\<lparr>m_item = 5, m_type = 9, m_copy = nullptr, m_screen = 7\<rparr>],
      m_changedItems = {5}, released = [], images = [100], reported = [NoClone]\<rparr>"
  using failed_clone_fails_stage [of kicad_change_types 4
     "\<lparr>m_changes = [\<lparr>m_item = 5, m_type = 9, m_copy = nullptr, m_screen = 7\<rparr>],
      m_changedItems = {5}, released = [], images = [nullptr, 100], reported = []\<rparr>" "\<lambda>x. x" 6 7]
  by (simp add: independent_bit_fields_def kicad_change_types_def makeImage_def)

subsection \<open>A removal after an addition\<close>

text \<open>
  Claim C2. Staging an addition of an item on a screen A and then its removal on A leaves
  exactly one record for that item and screen, the removal; the same holds for a removal
  staged at any later point of the transaction, and every record for another item or
  another screen (the same item on a screen B) stays as it was, in its place.
\<close>

theorem remove_supersedes_add:
  assumes "independent_bit_fields K"
    and "addition AND CHT_TYPE K = CHT_ADD K"
    and "removal AND CHT_TYPE K = CHT_REMOVE K"
    and "aItem \<notin> m_changedItems c"
    and "added = c\<lparr>m_changedItems := insert aItem (m_changedItems c),
                   m_changes := m_changes c @
                     [\<lparr>m_item = aItem, m_type = CHT_ADD K OR (addition AND CHT_FLAGS K),
                       m_copy = nullptr, m_screen = screenA\<rparr>]\<rparr>"
    and "aItem \<in> m_changedItems later"
    and "removed = Stage K parentObject later aItem removal screenA"
  shows "Stage K parentObject c aItem addition screenA = added \<and>
         aItem \<in> m_changedItems added \<and>
         reported removed = reported later \<and>
         filter (\<lambda>e. m_item e = aItem \<and> m_screen e = screenA) (m_changes removed) =
           [\<lparr>m_item = aItem, m_type = CHT_REMOVE K OR (removal AND CHT_FLAGS K),
             m_copy = nullptr, m_screen = screenA\<rparr>] \<and>
         (CHT_REMOVE K OR (removal AND CHT_FLAGS K)) AND CHT_TYPE K = CHT_REMOVE K \<and>
         filter (\<lambda>e. \<not> (m_item e = aItem \<and> m_screen e = screenA)) (m_changes removed) =
           filter (\<lambda>e. \<not> (m_item e = aItem \<and> m_screen e = screenA)) (m_changes later)"
proof -
  have "(CHT_REMOVE K OR (removal AND CHT_FLAGS K)) AND CHT_TYPE K = CHT_REMOVE K"
    using assms(1) by (intro kind_of_or_flag) (simp_all add: independent_bit_fields_def)
  then show ?thesis
    using assms by (simp add: Stage_Add Stage_Remove)
qed

theorem remove_supersedes_add_witness:
  "Stage kicad_change_types (\<lambda>x. x) (COMMIT_ctor []) 5 1 7 =
     \<lparr>m_changes = [\<lparr>m_item = 5, m_type = 1, m_copy = nullptr, m_screen = 7\<rparr>],
      m_changedItems = {5}, released = [], images = [], reported = []\<rparr> \<and>
   Stage kicad_change_types (\<lambda>x. x)
     \<lparr>m_changes = [\<lparr>m_item = 5, m_type = 1, m_copy = nullptr, m_screen = 7\<rparr>,
                   \<lparr>m_item = 5, m_type = 2, m_copy = nullptr, m_screen = 8\<rparr>],
      m_changedItems = {5}, released = [], images = [], reported = []\<rparr> 5 2 7 =
     \<lparr>m_changes = [\<lparr>m_item = 5, m_type = 2, m_copy = nullptr, m_screen = 8\<rparr>,
                   \<lparr>m_item = 5, m_type = 2, m_copy = nullptr, m_screen = 7\<rparr>],
      m_changedItems = {5}, released = [], images = [], reported = []\<rparr>"
proof -
  let ?later = "\<lparr>m_changes = [\<lparr>m_item = 5, m_type = 1, m_copy = nullptr, m_screen = 7\<rparr>,
                   \<lparr>m_item = 5, m_type = 2, m_copy = nullptr, m_screen = 8\<rparr>],
      m_changedItems = {5}, released = [], images = [], reported = []\<rparr>"
  let ?removed = "\<lparr>m_changes = [\<lparr>m_item = 5, m_type = 2, m_copy = nullptr, m_screen = 8\<rparr>,
                        \<lparr>m_item = 5, m_type = 2, m_copy = nullptr, m_screen = 7\<rparr>],
          m_changedItems = {5}, released = [], images = [], reported = []\<rparr>"
  have K: "independent_bit_fields kicad_change_types"
    by (simp add: independent_bit_fields_def kicad_change_types_def)
  have a: "(1 :: CHANGE_TYPE) AND CHT_TYPE kicad_change_types = CHT_ADD kicad_change_types"
    and r: "(2 :: CHANGE_TYPE) AND CHT_TYPE kicad_change_types = CHT_REMOVE kicad_change_types"
    by (simp_all add: kicad_change_types_def)
  have u: "(5 :: nat) \<notin> m_changedItems (COMMIT_ctor [])"
    by (simp add: COMMIT_ctor_def)
  have l: "(5 :: nat) \<in> m_changedItems ?later"
    by simp
  have s: "?removed = Stage kicad_change_types (\<lambda>x. x) ?later 5 2 7"
    by (simp add: Stage_def makeEntry_def delete_if_def wxASSERT_def kicad_change_types_def)
  show ?thesis
    using remove_supersedes_add [OF K a r u refl l s] s
    by (simp add: COMMIT_ctor_def kicad_change_types_def)
qed

subsection \<open>\<^verbatim>\<open>createModified\<close>\<close>

text \<open>
  Claim C3 says that \<^verbatim>\<open>createModified\<close> discards the clone exactly when a record of kind
  \<open>CHT_MODIFY\<close> exists for the parent. After an addition of item 5 the ledger holds one
  record, of kind \<open>CHT_ADD\<close>, and the clone 100 supplied for item 5 is released all the same.
\<close>

theorem create_modified_counterexample:
  "Stage kicad_change_types (\<lambda>x. x) (COMMIT_ctor []) 5 1 7 =
     \<lparr>m_changes = [\<lparr>m_item = 5, m_type = 1, m_copy = nullptr, m_screen = 7\<rparr>],
      m_changedItems = {5}, released = [], images = [], reported = []\<rparr> \<and>
   (1 :: CHANGE_TYPE) AND CHT_TYPE kicad_change_types \<noteq> CHT_MODIFY kicad_change_types \<and>
   createModified kicad_change_types (\<lambda>x. x)
     \<lparr>m_changes = [\<lparr>m_item = 5, m_type = 1, m_copy = nullptr, m_screen = 7\<rparr>],
      m_changedItems = {5}, released = [], images = [], reported = []\<rparr> 5 100 0 7 =
     \<lparr>m_changes = [\<lparr>m_item = 5, m_type = 1, m_copy = nullptr, m_screen = 7\<rparr>],
      m_changedItems = {5}, released = [100], images = [], reported = []\<rparr>"
  by (simp add: Stage_def createModified_def makeEntry_def delete_def wxASSERT_def
      COMMIT_ctor_def kicad_change_types_def)

text \<open>
  Claim C3, amended. \<^verbatim>\<open>createModified\<close> releases the supplied clone and changes nothing
  else exactly when the parent is in \<open>m_changedItems\<close>, whatever kind of record put it
  there; otherwise it appends a record of kind \<open>CHT_MODIFY\<close> for the parent that holds the
  clone, and puts the parent into the set.
\<close>

theorem create_modified_discards_iff_changed:
  assumes "independent_bit_fields K"
    and "aExtraFlags AND CHT_TYPE K = 0"
    and "aCopy \<noteq> nullptr"
  shows "createModified K parentObject c aItem aCopy aExtraFlags aScreen =
    (if parentObject aItem \<in> m_changedItems c
     then c\<lparr>released := released c @ [aCopy]\<rparr>
     else c\<lparr>m_changedItems := insert (parentObject aItem) (m_changedItems c),
            m_changes := m_changes c @
              [\<lparr>m_item = parentObject aItem, m_type = CHT_MODIFY K OR aExtraFlags,
                m_copy = aCopy, m_screen = aScreen\<rparr>]\<rparr>)"
  using assms by (rule createModified_eq)

theorem create_modified_discards_iff_changed_witness:
  "createModified kicad_change_types (\<lambda>x. x)
     \<lparr>m_changes = [\<lparr>m_item = 5, m_type = 1, m_copy = nullptr, m_screen = 7\<rparr>],
      m_changedItems = {5}, released = [], images = [], reported = []\<rparr> 6 100 8 7 =
     \<lparr>m_changes = [\<lparr>m_item = 5, m_type = 1, m_copy = nullptr, m_screen = 7\<rparr>,
                   \<lparr>m_item = 6, m_type = 12, m_copy = 100, m_screen = 7\<rparr>],
      m_changedItems = {6, 5}, released = [], images = [], reported = []\<rparr>"
  using create_modified_discards_iff_changed [of kicad_change_types 8 100 "\<lambda>x. x"
     "\<lparr>m_changes = [\<lparr>m_item = 5, m_type = 1, m_copy = nullptr, m_screen = 7\<rparr>],
      m_changedItems = {5}, released = [], images = [], reported = []\<rparr>" 6 7]
  by (simp add: independent_bit_fields_def kicad_change_types_def)

subsection \<open>\<^verbatim>\<open>GetStatus\<close>\<close>

lemma find_line_find:
  "find_line changes aItem aScreen =
     find (\<lambda>change. m_item change = aItem \<and> m_screen change = aScreen) changes"
  by (induction changes) simp_all

text \<open>
  Claim C9. \<^verbatim>\<open>GetStatus\<close> returns the type of the first record whose item is the parent
  of the given item and whose screen is the given screen, 0 when there is none, and the
  ledger it returns is the ledger it was given.
\<close>

theorem get_status_first_match:
  "GetStatus parentObject c aItem aScreen =
     ((case find (\<lambda>change. m_item change = parentObject aItem \<and> m_screen change = aScreen)
              (m_changes c) of
         None \<Rightarrow> 0
       | Some change \<Rightarrow> m_type change), c)"
  by (simp add: GetStatus_def findEntry_def find_line_find split: option.splits)

theorem get_status_first_match_witness:
  "GetStatus (\<lambda>x. x - 1)
     \<lparr>m_changes = [\<lparr>m_item = 5, m_type = 2, m_copy = nullptr, m_screen = 8\<rparr>,
                   \<lparr>m_item = 5, m_type = 9, m_copy = nullptr, m_screen = 7\<rparr>,
                   \<lparr>m_item = 5, m_type = 1, m_copy = nullptr, m_screen = 7\<rparr>],
      m_changedItems = {5}, released = [], images = [], reported = []\<rparr> 6 7 =
   (9, \<lparr>m_changes = [\<lparr>m_item = 5, m_type = 2, m_copy = nullptr, m_screen = 8\<rparr>,
                       \<lparr>m_item = 5, m_type = 9, m_copy = nullptr, m_screen = 7\<rparr>,
                       \<lparr>m_item = 5, m_type = 1, m_copy = nullptr, m_screen = 7\<rparr>],
         m_changedItems = {5}, released = [], images = [], reported = []\<rparr>)"
  using get_status_first_match [of "\<lambda>x. x - 1"
     "\<lparr>m_changes = [\<lparr>m_item = 5, m_type = 2, m_copy = nullptr, m_screen = 8\<rparr>,
                   \<lparr>m_item = 5, m_type = 9, m_copy = nullptr, m_screen = 7\<rparr>,
                   \<lparr>m_item = 5, m_type = 1, m_copy = nullptr, m_screen = 7\<rparr>],
      m_changedItems = {5}, released = [], images = [], reported = []\<rparr>" 6 7]
  by simp

subsection \<open>Staging a modification twice\<close>

text \<open>
  Claim C1 says that two modifications of one item leave exactly one record of kind
  \<open>CHT_MODIFY\<close>, with the first snapshot, whatever the ledger holds. On a ledger where item
  5 has been added, both clones (100 and 101) are released and the only record is the
  addition.
\<close>

theorem modify_twice_counterexample:
  "Stage kicad_change_types (\<lambda>x. x) (COMMIT_ctor [100, 101]) 5 1 7 =
     \<lparr>m_changes = [\<lparr>m_item = 5, m_type = 1, m_copy = nullptr, m_screen = 7\<rparr>],
      m_changedItems = {5}, released = [], images = [100, 101], reported = []\<rparr> \<and>
   Stage kicad_change_types (\<lambda>x. x)
     \<lparr>m_changes = [\<lparr>m_item = 5, m_type = 1, m_copy = nullptr, m_screen = 7\<rparr>],
      m_changedItems = {5}, released = [], images = [100, 101], reported = []\<rparr> 5 4 7 =
     \<lparr>m_changes = [\<lparr>m_item = 5, m_type = 1, m_copy = nullptr, m_screen = 7\<rparr>],
      m_changedItems = {5}, released = [100], images = [101], reported = []\<rparr> \<and>
   Stage kicad_change_types (\<lambda>x. x)
     \<lparr>m_changes = [\<lparr>m_item = 5, m_type = 1, m_copy = nullptr, m_screen = 7\<rparr>],
      m_changedItems = {5}, released = [100], images = [101], reported = []\<rparr> 5 4 7 =
     \<lparr>m_changes = [\<lparr>m_item = 5, m_type = 1, m_copy = nullptr, m_screen = 7\<rparr>],
      m_changedItems = {5}, released = [100, 101], images = [], reported = []\<rparr> \<and>
   (1 :: CHANGE_TYPE) AND CHT_TYPE kicad_change_types \<noteq> CHT_MODIFY kicad_change_types"
  by (simp add: Stage_def createModified_def makeEntry_def makeImage_def delete_def
      wxASSERT_def COMMIT_ctor_def kicad_change_types_def)

text \<open>
  Claim C1, amended. \<^verbatim>\<open>Stage\<close> hands the parent of the item to \<^verbatim>\<open>createModified\<close>, which
  takes the parent of what it is given: the record is filed under \<open>filed\<close>, the parent of
  the parent of the item (the parent itself whenever \<^verbatim>\<open>parentObject\<close> maps it to itself).
  In every ledger, when both clones are produced, the first of two modifications of one
  item reports nothing, and the second releases its clone at once and changes neither
  the records nor the set of changed items. When \<open>filed\<close> is not yet in \<open>m_changedItems\<close>
  (and the ledger holds no record of an item outside that set), the ledger then holds
  exactly one record for \<open>filed\<close>: of kind \<open>CHT_MODIFY\<close>, with the first clone.
\<close>

theorem modify_twice_keeps_first_snapshot:
  assumes "independent_bit_fields K"
    and "first AND CHT_TYPE K = CHT_MODIFY K"
    and "first AND (CHT_MODIFY K OR CHT_DONE K) \<noteq> (CHT_MODIFY K OR CHT_DONE K)"
    and "second AND CHT_TYPE K = CHT_MODIFY K"
    and "second AND (CHT_MODIFY K OR CHT_DONE K) \<noteq> (CHT_MODIFY K OR CHT_DONE K)"
    and "images c = cloneA # cloneB # rest"
    and "cloneA \<noteq> nullptr" and "cloneB \<noteq> nullptr"
    and "filed = parentObject (parentObject aItem)"
    and "modified = Stage K parentObject c aItem first aScreen"
  shows "reported modified = reported c \<and>
         Stage K parentObject modified aItem second aScreen' =
           modified\<lparr>images := rest, released := released modified @ [cloneB]\<rparr> \<and>
         (filed \<notin> m_changedItems c \<and> (\<forall>e \<in> set (m_changes c). m_item e \<in> m_changedItems c) \<longrightarrow>
            filter (\<lambda>e. m_item e = filed) (m_changes modified) =
              [\<lparr>m_item = filed, m_type = CHT_MODIFY K OR (first AND CHT_FLAGS K),
                m_copy = cloneA, m_screen = aScreen\<rparr>]) \<and>
         (CHT_MODIFY K OR (first AND CHT_FLAGS K)) AND CHT_TYPE K = CHT_MODIFY K"
proof -
  have fl: "(t AND CHT_FLAGS K) AND CHT_TYPE K = 0" for t
    using assms(1) by (simp add: and.assoc independent_bit_fields_def)
  have 1: "reported modified = reported c"
    using assms by (simp add: Stage_Modify createModified_eq fl)
  have m: "images modified = cloneB # rest" "filed \<in> m_changedItems modified"
    using assms by (simp_all add: Stage_Modify createModified_eq fl)
  have 2: "Stage K parentObject modified aItem second aScreen' =
           modified\<lparr>images := rest, released := released modified @ [cloneB]\<rparr>"
    using assms(1,4,5,8,9) m by (simp add: Stage_Modify createModified_eq fl)
  have 3: "filter (\<lambda>e. m_item e = filed) (m_changes modified) =
           [\<lparr>m_item = filed, m_type = CHT_MODIFY K OR (first AND CHT_FLAGS K),
             m_copy = cloneA, m_screen = aScreen\<rparr>]"
    if "filed \<notin> m_changedItems c" "\<forall>e \<in> set (m_changes c). m_item e \<in> m_changedItems c"
  proof -
    have "filter (\<lambda>e. m_item e = filed) (m_changes c) = []"
      using that by (auto simp: filter_empty_conv)
    then show ?thesis
      using assms that(1) by (simp add: Stage_Modify createModified_eq fl)
  qed
  have 4: "(CHT_MODIFY K OR (first AND CHT_FLAGS K)) AND CHT_TYPE K = CHT_MODIFY K"
    using assms(1) by (intro kind_of_or_flag) (simp_all add: independent_bit_fields_def)
  from 1 2 3 4 show ?thesis by simp
qed

theorem modify_twice_keeps_first_snapshot_witness:
  "Stage kicad_change_types (\<lambda>x. x - x mod 10)
     \<lparr>m_changes = [\<lparr>m_item = 40, m_type = 1, m_copy = nullptr, m_screen = 0\<rparr>],
      m_changedItems = {40}, released = [], images = [100, 101], reported = []\<rparr> 53 4 7 =
     \<lparr>m_changes = [\<lparr>m_item = 40, m_type = 1, m_copy = nullptr, m_screen = 0\<rparr>,
                   \<lparr>m_item = 50, m_type = 4, m_copy = 100, m_screen = 7\<rparr>],
      m_changedItems = {50, 40}, released = [], images = [101], reported = []\<rparr> \<and>
   Stage kicad_change_types (\<lambda>x. x - x mod 10)
     \<lparr>m_changes = [\<lparr>m_item = 40, m_type = 1, m_copy = nullptr, m_screen = 0\<rparr>,
                   \<lparr>m_item = 50, m_type = 4, m_copy = 100, m_screen = 7\<rparr>],
      m_changedItems = {50, 40}, released = [], images = [101], reported = []\<rparr> 53 4 7 =
     \<lparr>m_changes = [\<lparr>m_item = 40, m_type = 1, m_copy = nullptr, m_screen = 0\<rparr>,
                   \<lparr>m_item = 50, m_type = 4, m_copy = 100, m_screen = 7\<rparr>],
      m_changedItems = {50, 40}, released = [101], images = [], reported = []\<rparr> \<and>
   filter (\<lambda>e. m_item e = 50)
     [\<lparr>m_item = 40, m_type = 1, m_copy = nullptr, m_screen = 0\<rparr>,
      \<lparr>m_item = 50, m_type = 4, m_copy = 100, m_screen = 7\<rparr>] =
     [\<lparr>m_item = 50, m_type = 4, m_copy = 100, m_screen = 7\<rparr>]"
proof -
  let ?c = "\<lparr>m_changes = [\<lparr>m_item = 40, m_type = 1, m_copy = nullptr, m_screen = 0\<rparr>],
      m_changedItems = {40}, released = [], images = [100, 101], reported = []\<rparr>"
  let ?modified = "\<lparr>m_changes = [\<lparr>m_item = 40, m_type = 1, m_copy = nullptr, m_screen = 0\<rparr>,
                        \<lparr>m_item = 50, m_type = 4, m_copy = 100, m_screen = 7\<rparr>],
          m_changedItems = {50, 40}, released = [], images = [101], reported = []\<rparr>"
  have K: "independent_bit_fields kicad_change_types"
    by (simp add: independent_bit_fields_def kicad_change_types_def)
  have m: "(4 :: CHANGE_TYPE) AND CHT_TYPE kicad_change_types = CHT_MODIFY kicad_change_types"
    and d: "(4 :: CHANGE_TYPE) AND (CHT_MODIFY kicad_change_types OR CHT_DONE kicad_change_types)
              \<noteq> (CHT_MODIFY kicad_change_types OR CHT_DONE kicad_change_types)"
    by (simp_all add: kicad_change_types_def)
  have s: "?modified = Stage kicad_change_types (\<lambda>x. x - x mod 10) ?c 53 4 7"
    by (simp add: Stage_def createModified_def makeEntry_def makeImage_def wxASSERT_def
        kicad_change_types_def)
  show ?thesis
    using modify_twice_keeps_first_snapshot [where K = kicad_change_types
        and parentObject = "\<lambda>x. x - x mod 10" and aItem = 53 and first = 4 and second = 4
        and c = ?c and cloneA = 100 and cloneB = 101 and rest = "[]" and filed = 50
        and aScreen = 7 and aScreen' = 7 and modified = ?modified, OF K m d m d _ _ _ _ s] s [symmetric]
    by simp
qed

subsection \<open>The status after a modification\<close>

lemma find_line_append_new:
  assumes "\<forall>e \<in> set changes. m_item e \<noteq> aItem"
  shows "find_line (changes @ [\<lparr>m_item = aItem, m_type = t, m_copy = p, m_screen = aScreen\<rparr>])
           aItem aScreen =
         Some \<lparr>m_item = aItem, m_type = t, m_copy = p, m_screen = aScreen\<rparr>"
  using assms by (induction changes) simp_all

lemma find_line_None:
  "find_line changes aItem aScreen = None \<longleftrightarrow>
     (\<forall>e \<in> set changes. \<not> (m_item e = aItem \<and> m_screen e = aScreen))"
  by (induction changes) auto

text \<open>
  Claim C6 says that \<^verbatim>\<open>GetStatus\<close> after a successful \<^verbatim>\<open>Stage\<close> with kind \<open>CHT_MODIFY\<close>
  is of kind \<open>CHT_MODIFY\<close>. For item 5, added before on the same screen, the
  modification returns with no report and the status stays \<open>CHT_ADD\<close>.
\<close>

theorem status_after_modify_counterexample:
  "Stage kicad_change_types (\<lambda>x. x) (COMMIT_ctor [100]) 5 1 7 =
     \<lparr>m_changes = [\<lparr>m_item = 5, m_type = 1, m_copy = nullptr, m_screen = 7\<rparr>],
      m_changedItems = {5}, released = [], images = [100], reported = []\<rparr> \<and>
   Stage kicad_change_types (\<lambda>x. x)
     \<lparr>m_changes = [\<lparr>m_item = 5, m_type = 1, m_copy = nullptr, m_screen = 7\<rparr>],
      m_changedItems = {5}, released = [], images = [100], reported = []\<rparr> 5 4 7 =
     \<lparr>m_changes = [\<lparr>m_item = 5, m_type = 1, m_copy = nullptr, m_screen = 7\<rparr>],
      m_changedItems = {5}, released = [100], images = [], reported = []\<rparr> \<and>
   fst (GetStatus (\<lambda>x. x)
     \<lparr>m_changes = [\<lparr>m_item = 5, m_type = 1, m_copy = nullptr, m_screen = 7\<rparr>],
      m_changedItems = {5}, released = [100], images = [], reported = []\<rparr> 5 7) = 1 \<and>
   (1 :: CHANGE_TYPE) AND CHT_TYPE kicad_change_types \<noteq> CHT_MODIFY kicad_change_types"
  by (simp add: Stage_def createModified_def makeEntry_def makeImage_def delete_def
      wxASSERT_def COMMIT_ctor_def kicad_change_types_def GetStatus_def findEntry_def)

text \<open>
  Claim C6, amended. When the parent of the item is not yet in \<open>m_changedItems\<close> (and
  the ledger holds no record of an item outside that set), the clone is produced and
  \<^verbatim>\<open>parentObject\<close> maps the parent to itself, \<^verbatim>\<open>Stage\<close> with kind \<open>CHT_MODIFY\<close> succeeds,
  with no report, and \<^verbatim>\<open>GetStatus\<close> for the item and the screen is then of kind
  \<open>CHT_MODIFY\<close>. On a ledger with no record for the parent and the screen, \<^verbatim>\<open>GetStatus\<close>
  is 0.
\<close>

theorem status_after_modify:
  assumes "independent_bit_fields K"
    and "aChangeType AND CHT_TYPE K = CHT_MODIFY K"
    and "aChangeType AND (CHT_MODIFY K OR CHT_DONE K) \<noteq> (CHT_MODIFY K OR CHT_DONE K)"
    and "fst (makeImage c (parentObject aItem)) \<noteq> nullptr"
    and "parentObject (parentObject aItem) = parentObject aItem"
    and "parentObject aItem \<notin> m_changedItems c"
    and "\<forall>e \<in> set (m_changes c). m_item e \<in> m_changedItems c"
    and "staged = Stage K parentObject c aItem aChangeType aScreen"
    and "\<forall>e \<in> set (m_changes unstaged).
           \<not> (m_item e = parentObject aItem \<and> m_screen e = aScreen)"
  shows "reported staged = reported c \<and>
         fst (GetStatus parentObject staged aItem aScreen) AND CHT_TYPE K = CHT_MODIFY K \<and>
         fst (GetStatus parentObject unstaged aItem aScreen) = 0"
proof -
  obtain clone rest where i: "images c = clone # rest" "clone \<noteq> nullptr"
    using assms(4) by (auto simp: makeImage_def split: list.splits)
  have fl: "(aChangeType AND CHT_FLAGS K) AND CHT_TYPE K = 0"
    using assms(1) by (simp add: and.assoc independent_bit_fields_def)
  let ?ent = "\<lparr>m_item = parentObject aItem, m_type = CHT_MODIFY K OR (aChangeType AND CHT_FLAGS K),
                m_copy = clone, m_screen = aScreen\<rparr>"
  let ?c' = "c\<lparr>images := rest,
               m_changedItems := insert (parentObject aItem) (m_changedItems c),
               m_changes := m_changes c @ [?ent]\<rparr>"
  have s: "Stage K parentObject c aItem aChangeType aScreen = ?c'"
    using assms(1-3,5,6) i by (simp add: Stage_Modify createModified_eq fl)
  have "\<forall>e \<in> set (m_changes c). m_item e \<noteq> parentObject aItem"
    using assms(6,7) by auto
  then have "findEntry ?c' (parentObject aItem) aScreen = Some ?ent"
    by (simp add: findEntry_def find_line_append_new)
  then have g: "fst (GetStatus parentObject ?c' aItem aScreen) = m_type ?ent"
    by (simp add: GetStatus_def)
  have k: "m_type ?ent AND CHT_TYPE K = CHT_MODIFY K"
    using assms(1) fl by (simp add: bit.conj_disj_distrib2 independent_bit_fields_def)
  have n: "fst (GetStatus parentObject unstaged aItem aScreen) = 0"
    using assms(9) find_line_None [of "m_changes unstaged" "parentObject aItem" aScreen]
    by (simp add: GetStatus_def findEntry_def)
  show ?thesis
    using s g k n assms(8) by simp
qed

theorem status_after_modify_witness:
  "Stage kicad_change_types (\<lambda>x. x - x mod 10)
     \<lparr>m_changes = [\<lparr>m_item = 40, m_type = 1, m_copy = nullptr, m_screen = 7\<rparr>],
      m_changedItems = {40}, released = [], images = [100], reported = []\<rparr> 53 4 7 =
     \<lparr>m_changes = [\<lparr>m_item = 40, m_type = 1, m_copy = nullptr, m_screen = 7\<rparr>,
                   \<lparr>m_item = 50, m_type = 4, m_copy = 100, m_screen = 7\<rparr>],
      m_changedItems = {50, 40}, released = [], images = [], reported = []\<rparr> \<and>
   fst (GetStatus (\<lambda>x. x - x mod 10)
     \<lparr>m_changes = [\<lparr>m_item = 40, m_type = 1, m_copy = nullptr, m_screen = 7\<rparr>,
                   \<lparr>m_item = 50, m_type = 4, m_copy = 100, m_screen = 7\<rparr>],
      m_changedItems = {50, 40}, released = [], images = [], reported = []\<rparr> 53 7) AND 7 = 4 \<and>
   fst (GetStatus (\<lambda>x. x - x mod 10)
     \<lparr>m_changes = [\<lparr>m_item = 40, m_type = 1, m_copy = nullptr, m_screen = 7\<rparr>],
      m_changedItems = {40}, released = [], images = [100], reported = []\<rparr> 53 7) = 0"
proof -
  let ?c = "\<lparr>m_changes = [\<lparr>m_item = 40, m_type = 1, m_copy = nullptr, m_screen = 7\<rparr>],
      m_changedItems = {40}, released = [], images = [100], reported = []\<rparr>"
  have K: "independent_bit_fields kicad_change_types"
    by (simp add: independent_bit_fields_def kicad_change_types_def)
  have m: "(4 :: CHANGE_TYPE) AND CHT_TYPE kicad_change_types = CHT_MODIFY kicad_change_types"
    and d: "(4 :: CHANGE_TYPE) AND (CHT_MODIFY kicad_change_types OR CHT_DONE kicad_change_types)
              \<noteq> (CHT_MODIFY kicad_change_types OR CHT_DONE kicad_change_types)"
    by (simp_all add: kicad_change_types_def)
  let ?staged = "\<lparr>m_changes = [\<lparr>m_item = 40, m_type = 1, m_copy = nullptr, m_screen = 7\<rparr>,
                        \<lparr>m_item = 50, m_type = 4, m_copy = 100, m_screen = 7\<rparr>],
          m_changedItems = {50, 40}, released = [], images = [], reported = []\<rparr>"
  have s: "?staged = Stage kicad_change_types (\<lambda>x. x - x mod 10) ?c 53 4 7"
    by (simp add: Stage_def createModified_def makeEntry_def makeImage_def wxASSERT_def
        kicad_change_types_def)
  have t: "CHT_TYPE kicad_change_types = 7" "CHT_MODIFY kicad_change_types = 4"
    by (simp_all add: kicad_change_types_def)
  show ?thesis
    using status_after_modify [where K = kicad_change_types
        and parentObject = "\<lambda>x. x - x mod 10" and aItem = 53 and aChangeType = 4 and c = ?c
        and aScreen = 7 and unstaged = ?c and staged = ?staged, OF K m d _ _ _ _ s] s [symmetric]
    by (simp add: makeImage_def t)
qed

subsection \<open>The import of a list of picked items\<close>

lemma Stage_picked_append:
  "Stage_picked K parentObject c (before @ rest) aModFlag aScreen =
     (case Stage_picked K parentObject c before aModFlag aScreen of
        Inl failure \<Rightarrow> Inl failure
      | Inr c' \<Rightarrow> Stage_picked K parentObject c' rest aModFlag aScreen)"
  by (induction before arbitrary: c) (simp_all split: sum.splits)

lemma images_createModified:
  "images (createModified K parentObject c aItem aCopy aExtraFlags aScreen) = images c"
  by (simp add: createModified_def makeEntry_def delete_def wxASSERT_def Let_def)

text \<open>
  Claim C5 says that an entry with a link becomes a record of kind \<open>CHT_MODIFY\<close> that
  holds the link. For the list of item 5 as a new item and item 5 again as changed with
  the link 200, the link is released and the only record is the addition.
\<close>

theorem bulk_import_counterexample:
  "Stage_picked kicad_change_types (\<lambda>x. x) (COMMIT_ctor [])
     [\<lparr>PickedItem = 5, PickedItemStatus = NEWITEM, PickedItemLink = nullptr\<rparr>,
      \<lparr>PickedItem = 5, PickedItemStatus = CHANGED, PickedItemLink = 200\<rparr>] UNSPECIFIED 7 =
   Inr \<lparr>m_changes = [\<lparr>m_item = 5, m_type = 1, m_copy = nullptr, m_screen = 7\<rparr>],
        m_changedItems = {5}, released = [200], images = [], reported = []\<rparr>"
  by (simp add: Stage_picked_item_def Modified_def Stage_def createModified_def makeEntry_def
      delete_def wxASSERT_def COMMIT_ctor_def kicad_change_types_def)

text \<open>
  Claim C5, amended. \<^verbatim>\<open>Stage\<close> of a list of picked items handles the entries in their
  order and stops at the first \<^verbatim>\<open>assert\<close> that fails. For one entry, with the status
  \<open>UNSPECIFIED\<close> replaced by the default: an entry with a link, whose status has to be
  \<open>CHANGED\<close> (\<^verbatim>\<open>assert\<close>), goes through \<^verbatim>\<open>createModified\<close> with that very link, and no image
  is made; the link is held by a new record of kind \<open>CHT_MODIFY\<close> when the parent of the
  item is not yet in \<open>m_changedItems\<close>, and is released, with no record made, when it is.
  An entry without a link goes through \<^verbatim>\<open>Stage\<close> of one item, with \<open>CHT_ADD\<close> for
  \<open>NEWITEM\<close>, \<open>CHT_REMOVE\<close> for \<open>DELETED\<close> and \<open>CHT_MODIFY\<close> for \<open>CHANGED\<close>; any other status
  fails the \<^verbatim>\<open>assert\<close> of \<^verbatim>\<open>convert\<close>.
\<close>

theorem bulk_import_mapping:
  assumes "independent_bit_fields K"
    and "status = (if PickedItemStatus picked = UNSPECIFIED then aModFlag
                   else PickedItemStatus picked)"
    and "item = PickedItem picked" and "link = PickedItemLink picked"
    and "step = Stage_picked_item K parentObject c picked aModFlag aScreen"
  shows "Stage_picked K parentObject c (before @ picked # rest) aModFlag aScreen =
           (case Stage_picked K parentObject c before aModFlag aScreen of
              Inl failure \<Rightarrow> Inl failure
            | Inr c' \<Rightarrow>
                (case Stage_picked_item K parentObject c' picked aModFlag aScreen of
                   Inl failure \<Rightarrow> Inl failure
                 | Inr c'' \<Rightarrow> Stage_picked K parentObject c'' rest aModFlag aScreen)) \<and>
         (link \<noteq> nullptr \<and> status = CHANGED \<longrightarrow>
            step = Inr (createModified K parentObject c item link 0 aScreen) \<and>
            images (state_of step) = images c \<and>
            (parentObject item \<in> m_changedItems c \<longrightarrow>
               step = Inr (c\<lparr>released := released c @ [link]\<rparr>)) \<and>
            (parentObject item \<notin> m_changedItems c \<longrightarrow>
               step = Inr (c\<lparr>m_changedItems := insert (parentObject item) (m_changedItems c),
                              m_changes := m_changes c @
                                [\<lparr>m_item = parentObject item, m_type = CHT_MODIFY K,
                                  m_copy = link, m_screen = aScreen\<rparr>]\<rparr>))) \<and>
         (link \<noteq> nullptr \<and> status \<noteq> CHANGED \<longrightarrow> step = Inl (LinkNotChanged, c)) \<and>
         (link = nullptr \<and> status = NEWITEM \<longrightarrow>
            step = Inr (Stage K parentObject c item (CHT_ADD K) aScreen)) \<and>
         (link = nullptr \<and> status = DELETED \<longrightarrow>
            step = Inr (Stage K parentObject c item (CHT_REMOVE K) aScreen)) \<and>
         (link = nullptr \<and> status = CHANGED \<longrightarrow>
            step = Inr (Stage K parentObject c item (CHT_MODIFY K) aScreen)) \<and>
         (link = nullptr \<and> status \<noteq> NEWITEM \<and> status \<noteq> DELETED \<and> status \<noteq> CHANGED \<longrightarrow>
            step = Inl (NoConversion, c))"
proof -
  have 1: "Stage_picked K parentObject c (before @ picked # rest) aModFlag aScreen =
           (case Stage_picked K parentObject c before aModFlag aScreen of
              Inl failure \<Rightarrow> Inl failure
            | Inr c' \<Rightarrow>
                (case Stage_picked_item K parentObject c' picked aModFlag aScreen of
                   Inl failure \<Rightarrow> Inl failure
                 | Inr c'' \<Rightarrow> Stage_picked K parentObject c'' rest aModFlag aScreen))"
    by (simp add: Stage_picked_append split: sum.splits)
  have 2: "step = Inr (createModified K parentObject c item link 0 aScreen)"
    if "link \<noteq> nullptr" "status = CHANGED"
    using that assms(2-5) by (simp add: Stage_picked_item_def Modified_def Let_def)
  have 3: "images (state_of step) = images c" if "link \<noteq> nullptr" "status = CHANGED"
    using 2 [OF that] by (simp add: images_createModified state_of_def)
  have 4: "step = Inr (c\<lparr>released := released c @ [link]\<rparr>)"
    if "link \<noteq> nullptr" "status = CHANGED" "parentObject item \<in> m_changedItems c"
    using 2 [OF that(1,2)] that assms(1) by (simp add: createModified_eq)
  have 5: "step = Inr (c\<lparr>m_changedItems := insert (parentObject item) (m_changedItems c),
                              m_changes := m_changes c @
                                [\<lparr>m_item = parentObject item, m_type = CHT_MODIFY K,
                                  m_copy = link, m_screen = aScreen\<rparr>]\<rparr>)"
    if "link \<noteq> nullptr" "status = CHANGED" "parentObject item \<notin> m_changedItems c"
    using 2 [OF that(1,2)] that assms(1) by (simp add: createModified_eq)
  have 6: "step = Inl (LinkNotChanged, c)" if "link \<noteq> nullptr" "status \<noteq> CHANGED"
    using that assms(2-5) by (simp add: Stage_picked_item_def Let_def)
  have 7: "step = Inr (Stage K parentObject c item kind aScreen)"
    if "link = nullptr" "convert K status = Inr kind" for kind
    using that assms(2-5) by (simp add: Stage_picked_item_def Let_def)
  have 8: "step = Inl (NoConversion, c)"
    if "link = nullptr" "status \<noteq> NEWITEM" "status \<noteq> DELETED" "status \<noteq> CHANGED"
  proof -
    have "convert K status = Inl NoConversion"
      using that(2-4) by (cases status) simp_all
    then show ?thesis
      using that(1) assms(4,5) unfolding assms(2) Stage_picked_item_def Let_def by simp
  qed
  show ?thesis
    using 1 2 3 4 5 6 7 [of "CHT_ADD K"] 7 [of "CHT_REMOVE K"] 7 [of "CHT_MODIFY K"] 8
    by simp
qed

theorem bulk_import_mapping_witness:
  "Stage_picked kicad_change_types (\<lambda>x. x) (COMMIT_ctor [100])
     [\<lparr>PickedItem = 5, PickedItemStatus = NEWITEM, PickedItemLink = nullptr\<rparr>,
      \<lparr>PickedItem = 6, PickedItemStatus = UNSPECIFIED, PickedItemLink = 200\<rparr>,
      \<lparr>PickedItem = 7, PickedItemStatus = OTHER 4, PickedItemLink = nullptr\<rparr>] CHANGED 9 =
   Inl (NoConversion,
     \<lparr>m_changes = [\<lparr>m_item = 5, m_type = 1, m_copy = nullptr, m_screen = 9\<rparr>,
                   \<lparr>m_item = 6, m_type = 4, m_copy = 200, m_screen = 9\<rparr>],
      m_changedItems = {6, 5}, released = [], images = [100], reported = []\<rparr>) \<and>
   Stage_picked_item kicad_change_types (\<lambda>x. x)
     \<lparr>m_changes = [\<lparr>m_item = 5, m_type = 1, m_copy = nullptr, m_screen = 9\<rparr>],
      m_changedItems = {5}, released = [], images = [100], reported = []\<rparr>
     \<lparr>PickedItem = 6, PickedItemStatus = UNSPECIFIED, PickedItemLink = 200\<rparr> CHANGED 9 =
   Inr \<lparr>m_changes = [\<lparr>m_item = 5, m_type = 1, m_copy = nullptr, m_screen = 9\<rparr>,
                   \<lparr>m_item = 6, m_type = 4, m_copy = 200, m_screen = 9\<rparr>],
      m_changedItems = {6, 5}, released = [], images = [100], reported = []\<rparr> \<and>
   Stage_picked_item kicad_change_types (\<lambda>x. x)
     \<lparr>m_changes = [\<lparr>m_item = 5, m_type = 1, m_copy = nullptr, m_screen = 9\<rparr>],
      m_changedItems = {5}, released = [], images = [100], reported = []\<rparr>
     \<lparr>PickedItem = 5, PickedItemStatus = CHANGED, PickedItemLink = 200\<rparr> CHANGED 9 =
   Inr \<lparr>m_changes = [\<lparr>m_item = 5, m_type = 1, m_copy = nullptr, m_screen = 9\<rparr>],
      m_changedItems = {5}, released = [200], images = [100], reported = []\<rparr>"
proof -
  let ?c = "\<lparr>m_changes = [\<lparr>m_item = 5, m_type = 1, m_copy = nullptr, m_screen = 9\<rparr>],
      m_changedItems = {5}, released = [], images = [100], reported = []\<rparr>"
  let ?new = "\<lparr>PickedItem = 6, PickedItemStatus = UNSPECIFIED, PickedItemLink = 200\<rparr>"
  let ?old = "\<lparr>PickedItem = 5, PickedItemStatus = CHANGED, PickedItemLink = 200\<rparr>"
  have K: "independent_bit_fields kicad_change_types"
    by (simp add: independent_bit_fields_def kicad_change_types_def)
  have a: "Stage_picked_item kicad_change_types (\<lambda>x. x) (COMMIT_ctor [100])
      \<lparr>PickedItem = 5, PickedItemStatus = NEWITEM, PickedItemLink = nullptr\<rparr> CHANGED 9 = Inr ?c"
    by (simp add: Stage_picked_item_def Stage_def makeEntry_def wxASSERT_def
        kicad_change_types_def COMMIT_ctor_def)
  have m: "CHT_MODIFY kicad_change_types = 4"
    by (simp add: kicad_change_types_def)
  note n = bulk_import_mapping [where K = kicad_change_types and parentObject = "\<lambda>x. x"
      and c = ?c and picked = ?new and aModFlag = CHANGED and aScreen = 9
      and before = "[]" and rest = "[]", OF K refl refl refl refl]
  note o = bulk_import_mapping [where K = kicad_change_types and parentObject = "\<lambda>x. x"
      and c = ?c and picked = ?old and aModFlag = CHANGED and aScreen = 9
      and before = "[]" and rest = "[]", OF K refl refl refl refl]
  from n have s: "Stage_picked_item kicad_change_types (\<lambda>x. x) ?c ?new CHANGED 9 =
      Inr \<lparr>m_changes = [\<lparr>m_item = 5, m_type = 1, m_copy = nullptr, m_screen = 9\<rparr>,
                   \<lparr>m_item = 6, m_type = 4, m_copy = 200, m_screen = 9\<rparr>],
      m_changedItems = {6, 5}, released = [], images = [100], reported = []\<rparr>"
    by (auto simp: m)
  from o have d: "Stage_picked_item kicad_change_types (\<lambda>x. x) ?c ?old CHANGED 9 =
      Inr \<lparr>m_changes = [\<lparr>m_item = 5, m_type = 1, m_copy = nullptr, m_screen = 9\<rparr>],
      m_changedItems = {5}, released = [200], images = [100], reported = []\<rparr>"
    by (auto simp: m)
  have l: "Stage_picked_item kicad_change_types (\<lambda>x. x)
      \<lparr>m_changes = [\<lparr>m_item = 5, m_type = 1, m_copy = nullptr, m_screen = 9\<rparr>,
                   \<lparr>m_item = 6, m_type = 4, m_copy = 200, m_screen = 9\<rparr>],
      m_changedItems = {6, 5}, released = [], images = [100], reported = []\<rparr>
      \<lparr>PickedItem = 7, PickedItemStatus = OTHER 4, PickedItemLink = nullptr\<rparr> CHANGED 9 =
    Inl (NoConversion, \<lparr>m_changes = [\<lparr>m_item = 5, m_type = 1, m_copy = nullptr, m_screen = 9\<rparr>,
                   \<lparr>m_item = 6, m_type = 4, m_copy = 200, m_screen = 9\<rparr>],
      m_changedItems = {6, 5}, released = [], images = [100], reported = []\<rparr>)"
    by (simp add: Stage_picked_item_def)
  show ?thesis
    using a s d l by simp
qed

subsection \<open>Records and changed items\<close>

lemma cover_wxASSERT: "changed_items_cover (wxASSERT cond violated c) = changed_items_cover c"
  by (simp add: changed_items_cover_def wxASSERT_def)

lemma cover_makeEntry:
  "changed_items_cover c \<Longrightarrow> changed_items_cover (makeEntry K c aItem aType aCopy aScreen)"
  by (auto simp: changed_items_cover_def makeEntry_def delete_if_def wxASSERT_def Let_def)

lemma cover_delete: "changed_items_cover (delete p c) = changed_items_cover c"
  by (simp add: changed_items_cover_def delete_def)

lemma cover_makeImage: "changed_items_cover (snd (makeImage c p)) = changed_items_cover c"
  by (simp add: changed_items_cover_def makeImage_def split: list.splits)

lemma cover_createModified:
  "changed_items_cover c \<Longrightarrow>
   changed_items_cover (createModified K parentObject c aItem aCopy aExtraFlags aScreen)"
  using cover_makeEntry [of c K "parentObject aItem"]
  by (simp add: createModified_def Let_def cover_delete)

lemma cover_Stage:
  assumes "changed_items_cover c"
  shows "changed_items_cover (Stage K parentObject c aItem aChangeType aScreen)"
proof -
  define c1 where "c1 = wxASSERT
    (aChangeType AND (CHT_MODIFY K OR CHT_DONE K) \<noteq> (CHT_MODIFY K OR CHT_DONE K))
    ModifyWithDone c"
  obtain clone c2 where m: "makeImage c1 (parentObject aItem) = (clone, c2)"
    by (cases "makeImage c1 (parentObject aItem)")
  have c1: "changed_items_cover c1"
    using assms by (simp add: c1_def cover_wxASSERT)
  then have c2: "changed_items_cover c2"
    using cover_makeImage [of c1 "parentObject aItem"] m by simp
  have a: "changed_items_cover (wxASSERT cond violated c1)" for cond violated
    using c1 by (simp add: cover_wxASSERT)
  have b: "changed_items_cover (wxASSERT cond violated c2)" for cond violated
    using c2 by (simp add: cover_wxASSERT)
  have f: "changed_items_cover (wxFAIL violated c1)" for violated
    using c1 by (simp add: changed_items_cover_def wxFAIL_def)
  show ?thesis
    unfolding Stage_def Let_def c1_def [symmetric] m prod.case
    using cover_makeEntry [OF c1] cover_makeEntry [OF a] cover_createModified [OF b] b f
    by simp
qed

lemma cover_Stage_vector:
  "changed_items_cover c \<Longrightarrow>
   changed_items_cover (Stage_vector K parentObject c container aChangeType aScreen)"
  by (induction container arbitrary: c) (simp_all add: cover_Stage)

lemma cover_Stage_picked_item:
  assumes "changed_items_cover c"
  shows "changed_items_cover (state_of (Stage_picked_item K parentObject c picked aModFlag aScreen))"
  unfolding Stage_picked_item_def Let_def Modified_def
  using assms cover_Stage [OF assms] cover_createModified [OF assms]
  by (simp add: state_of_def split: sum.splits)

lemma cover_Stage_picked:
  "changed_items_cover c \<Longrightarrow>
   changed_items_cover (state_of (Stage_picked K parentObject c aItems aModFlag aScreen))"
proof (induction aItems arbitrary: c)
  case Nil
  then show ?case by (simp add: state_of_def)
next
  case (Cons picked aItems)
  show ?case
  proof (cases "Stage_picked_item K parentObject c picked aModFlag aScreen")
    case (Inl failure)
    then show ?thesis
      using cover_Stage_picked_item [OF Cons.prems, of K parentObject picked aModFlag aScreen]
      by simp
  next
    case (Inr c')
    then have "changed_items_cover c'"
      using cover_Stage_picked_item [OF Cons.prems, of K parentObject picked aModFlag aScreen]
      by (simp add: state_of_def)
    then show ?thesis
      using Inr Cons.IH by simp
  qed
qed

lemma reachable_cover: "reachable K parentObject c \<Longrightarrow> changed_items_cover c"
proof (induction rule: reachable.induct)
  case (ctor imgs)
  show ?case by (simp add: changed_items_cover_def COMMIT_ctor_def)
next
  case (stage c aItem aChangeType aScreen)
  then show ?case by (simp add: cover_Stage)
next
  case (stage_vector c container aChangeType aScreen)
  then show ?case by (simp add: cover_Stage_vector)
next
  case (stage_picked c aItems aModFlag aScreen)
  then show ?case by (simp add: cover_Stage_picked)
qed

text \<open>
  Claim C10. In every ledger reachable from the new ledger through the three overloads of
  \<^verbatim>\<open>Stage\<close>, the item of every record is in \<open>m_changedItems\<close>; so for an item outside the
  set, the scan that \<^verbatim>\<open>makeEntry\<close> skips would have removed nothing.
\<close>

theorem records_are_of_changed_items:
  assumes "reachable K parentObject c"
  shows "(\<forall>e \<in> set (m_changes c). m_item e \<in> m_changedItems c) \<and>
         (\<forall>aItem aScreen. aItem \<notin> m_changedItems c \<longrightarrow>
            delete_if (m_changes c) (\<lambda>aEnt. m_item aEnt = aItem \<and> m_screen aEnt = aScreen) =
              m_changes c)"
proof -
  have 1: "\<forall>e \<in> set (m_changes c). m_item e \<in> m_changedItems c"
    using reachable_cover [OF assms] by (simp add: changed_items_cover_def)
  then have "\<forall>aItem aScreen. aItem \<notin> m_changedItems c \<longrightarrow>
      filter (\<lambda>x. \<not> (m_item x = aItem \<and> m_screen x = aScreen)) (m_changes c) = m_changes c"
    by (auto simp: filter_id_conv)
  with 1 show ?thesis by (simp add: delete_if_def)
qed

theorem records_are_of_changed_items_witness:
  "reachable kicad_change_types (\<lambda>x. x)
     \<lparr>m_changes = [\<lparr>m_item = 5, m_type = 1, m_copy = nullptr, m_screen = 7\<rparr>,
                   \<lparr>m_item = 6, m_type = 4, m_copy = 100, m_screen = 7\<rparr>],
      m_changedItems = {6, 5}, released = [], images = [], reported = []\<rparr> \<and>
   m_item ` set (m_changes
     \<lparr>m_changes = [\<lparr>m_item = 5, m_type = 1, m_copy = nullptr, m_screen = 7\<rparr>,
                   \<lparr>m_item = 6, m_type = 4, m_copy = 100, m_screen = 7\<rparr>],
      m_changedItems = {6, 5}, released = [], images = [], reported = []\<rparr>) \<subseteq> {6, 5}"
proof -
  let ?c = "\<lparr>m_changes = [\<lparr>m_item = 5, m_type = 1, m_copy = nullptr, m_screen = 7\<rparr>,
                   \<lparr>m_item = 6, m_type = 4, m_copy = 100, m_screen = 7\<rparr>],
      m_changedItems = {6, 5}, released = [], images = [], reported = []\<rparr>"
  have "?c = Stage kicad_change_types (\<lambda>x. x)
               (Stage kicad_change_types (\<lambda>x. x) (COMMIT_ctor [100]) 5 1 7) 6 4 7"
    by (simp add: Stage_def createModified_def makeEntry_def makeImage_def wxASSERT_def
        kicad_change_types_def COMMIT_ctor_def)
  then have r: "reachable kicad_change_types (\<lambda>x. x) ?c"
    using reachable.stage [OF reachable.stage [OF reachable.ctor]] by simp
  show ?thesis
    using r records_are_of_changed_items [OF r] by auto
qed

subsection \<open>The destructor\<close>

lemma copies_append: "copies (xs @ ys) = copies xs @ copies ys"
  by (simp add: copies_def)

lemma copies_single:
  "copies [\<lparr>m_item = i, m_type = t, m_copy = p, m_screen = s\<rparr>] = (if p = nullptr then [] else [p])"
  by (simp add: copies_def)

lemma set_copies_filter: "set (copies (filter P xs)) \<subseteq> set (copies xs)"
  by (auto simp: copies_def)

lemma distinct_copies_filter: "distinct (copies xs) \<Longrightarrow> distinct (copies (filter P xs))"
proof (induction xs)
  case Nil
  then show ?case by simp
next
  case (Cons x xs)
  then show ?case
    using set_copies_filter [of P xs] by (auto simp: copies_def)
qed

lemma keeps_refl: "exclusive c \<Longrightarrow> keeps c new c"
  by (simp add: keeps_def)

lemma keeps_mono: "keeps c new c' \<Longrightarrow> new \<subseteq> new' \<Longrightarrow> keeps c new' c'"
  by (auto simp: keeps_def)

lemma keeps_trans:
  "keeps c new c' \<Longrightarrow> keeps c' new' c'' \<Longrightarrow> keeps c (new \<union> new') c''"
  by (auto simp: keeps_def)

lemma null_no_object: "exclusive c \<Longrightarrow> nullptr \<notin> objects c"
  by (simp add: exclusive_def objects_def snapshots_def copies_def coming_def)

lemma keeps_wxASSERT: "exclusive c \<Longrightarrow> keeps c {} (wxASSERT cond violated c)"
  by (auto simp: keeps_def wxASSERT_def exclusive_def objects_def snapshots_def coming_def)

lemma keeps_wxFAIL: "exclusive c \<Longrightarrow> keeps c {} (wxFAIL violated c)"
  by (auto simp: keeps_def wxFAIL_def exclusive_def objects_def snapshots_def coming_def)

lemma keeps_makeEntry:
  assumes "exclusive c" and "aCopy \<notin> objects c"
  shows "keeps c ({aCopy} - {nullptr}) (makeEntry K c aItem aType aCopy aScreen)"
proof -
  define changes where "changes =
    (if aItem \<in> m_changedItems c
     then delete_if (m_changes c) (\<lambda>aEnt. m_item aEnt = aItem \<and> m_screen aEnt = aScreen)
     else m_changes c)"
  define c' where "c' = makeEntry K c aItem aType aCopy aScreen"
  have s: "snapshots c' = copies changes @ (if aCopy = nullptr then [] else [aCopy])"
    and r: "released c' = released c" and i: "coming c' = coming c"
    by (simp_all add: c'_def makeEntry_def wxASSERT_def snapshots_def coming_def changes_def
        copies_append copies_single Let_def)
  have sub: "set (copies changes) \<subseteq> set (snapshots c)"
    and dis: "distinct (copies changes)"
    using assms(1) set_copies_filter [of _ "m_changes c"] distinct_copies_filter [of "m_changes c"]
    by (auto simp: changes_def delete_if_def snapshots_def exclusive_def)
  have "exclusive c'"
    using assms sub dis unfolding exclusive_def objects_def s r i
    by (auto simp: snapshots_def)
  moreover have "objects c' \<subseteq> objects c \<union> ({aCopy} - {nullptr})"
    using sub unfolding objects_def s r i by auto
  ultimately show ?thesis
    by (simp add: keeps_def c'_def)
qed

lemma keeps_delete:
  assumes "exclusive c" and "aCopy \<notin> objects c"
  shows "keeps c ({aCopy} - {nullptr}) (delete aCopy c)"
  using assms
  by (auto simp: keeps_def delete_def exclusive_def objects_def snapshots_def coming_def)

lemma keeps_createModified:
  assumes "exclusive c" and "aCopy \<notin> objects c"
  shows "keeps c ({aCopy} - {nullptr})
           (createModified K parentObject c aItem aCopy aExtraFlags aScreen)"
proof (cases "parentObject aItem \<in> m_changedItems c")
  case True
  then show ?thesis
    using keeps_delete [OF assms] by (simp add: createModified_def)
next
  case False
  then show ?thesis
    using keeps_makeEntry [OF assms] by (simp add: createModified_def)
qed

lemma keeps_makeImage:
  assumes "exclusive c" and "makeImage c p = (clone, c')"
  shows "exclusive c' \<and> clone \<notin> objects c' \<and> objects c' \<union> ({clone} - {nullptr}) = objects c"
proof (cases "images c")
  case Nil
  then show ?thesis
    using assms null_no_object [OF assms(1)] by (auto simp: makeImage_def)
next
  case (Cons q qs)
  then have c': "c' = c\<lparr>images := qs\<rparr>" and q: "clone = q"
    using assms(2) by (simp_all add: makeImage_def)
  show ?thesis
    using assms(1) Cons unfolding c' q
    by (auto simp: exclusive_def objects_def snapshots_def coming_def copies_def)
qed

lemma keeps_Stage:
  assumes "exclusive c"
  shows "keeps c {} (Stage K parentObject c aItem aChangeType aScreen)"
proof -
  define c1 where "c1 = wxASSERT
    (aChangeType AND (CHT_MODIFY K OR CHT_DONE K) \<noteq> (CHT_MODIFY K OR CHT_DONE K))
    ModifyWithDone c"
  have k1: "keeps c {} c1"
    using assms by (simp add: c1_def keeps_wxASSERT)
  then have x1: "exclusive c1"
    by (simp add: keeps_def)
  have via: "keeps c {} d" if "keeps c1 {} d" for d
    using keeps_trans [OF k1 that] by simp
  have e: "keeps c1 {} (makeEntry K c1 aItem t nullptr aScreen)" for t
    using keeps_makeEntry [OF x1 null_no_object [OF x1], of K aItem t aScreen] by simp
  have a: "keeps c1 {} (makeEntry K (wxASSERT cond violated c1) aItem t nullptr aScreen)"
    for cond violated t
  proof -
    have k: "keeps c1 {} (wxASSERT cond violated c1)"
      using x1 by (rule keeps_wxASSERT)
    then have x: "exclusive (wxASSERT cond violated c1)"
      by (simp add: keeps_def)
    from keeps_trans [OF k keeps_makeEntry [OF x null_no_object [OF x], of K aItem t aScreen]]
    show ?thesis by simp
  qed
  obtain clone c2 where m: "makeImage c1 (parentObject aItem) = (clone, c2)"
    by (cases "makeImage c1 (parentObject aItem)")
  note i = keeps_makeImage [OF x1 m]
  define c3 where "c3 = wxASSERT (clone \<noteq> nullptr) NoClone c2"
  have x3: "exclusive c3" and o3: "objects c3 = objects c2"
    using i by (simp_all add: c3_def wxASSERT_def exclusive_def objects_def snapshots_def
        coming_def)
  have n: "keeps c1 {} c3"
    using x3 o3 i by (auto simp: keeps_def)
  have g: "keeps c1 {} (createModified K parentObject c3 (parentObject aItem) clone t aScreen)"
    for t
    using keeps_createModified [of c3 clone K parentObject "parentObject aItem" t aScreen]
      x3 o3 i
    by (auto simp: keeps_def)
  have f: "keeps c1 {} (wxFAIL UnknownChangeType c1)"
    using x1 by (rule keeps_wxFAIL)
  have "keeps c1 {} (Stage K parentObject c aItem aChangeType aScreen)"
    unfolding Stage_def Let_def c1_def [symmetric] m prod.case c3_def [symmetric]
    using e a n g f by simp
  then show ?thesis
    by (rule via)
qed

lemma keeps_Stage_vector:
  "exclusive c \<Longrightarrow>
   keeps c {} (Stage_vector K parentObject c container aChangeType aScreen)"
proof (induction container arbitrary: c)
  case Nil
  then show ?case by (simp add: keeps_refl)
next
  case (Cons item container)
  note k = keeps_Stage [OF Cons.prems, of K parentObject item aChangeType aScreen]
  then have "exclusive (Stage K parentObject c item aChangeType aScreen)"
    by (simp add: keeps_def)
  from keeps_trans [OF k Cons.IH [OF this]] show ?case
    by simp
qed

lemma keeps_Stage_picked_item:
  assumes "exclusive c" and "PickedItemLink picked \<notin> objects c"
  shows "keeps c ({PickedItemLink picked} - {nullptr})
           (state_of (Stage_picked_item K parentObject c picked aModFlag aScreen))"
proof -
  define status where "status =
    (if PickedItemStatus picked = UNSPECIFIED then aModFlag else PickedItemStatus picked)"
  define new where "new = {PickedItemLink picked} - {nullptr}"
  have f: "keeps c new (state_of (Inl (x, c)))" for x
    using assms(1) by (simp add: state_of_def keeps_refl)
  have "keeps c new (Stage K parentObject c (PickedItem picked) t aScreen)" for t
    by (rule keeps_mono [OF keeps_Stage [OF assms(1)]]) simp
  then have s: "keeps c new (state_of (Inr (Stage K parentObject c (PickedItem picked) t aScreen)))"
    for t
    by (simp add: state_of_def)
  have m: "keeps c new
      (state_of (Inr (createModified K parentObject c (PickedItem picked) (PickedItemLink picked)
         0 aScreen)))"
    unfolding new_def state_of_def using keeps_createModified [OF assms] by simp
  have "Stage_picked_item K parentObject c picked aModFlag aScreen =
      (if PickedItemLink picked \<noteq> nullptr then
         (if status \<noteq> CHANGED then Inl (LinkNotChanged, c)
          else Inr (createModified K parentObject c (PickedItem picked) (PickedItemLink picked)
                 0 aScreen))
       else
         (case convert K status of
            Inl failure \<Rightarrow> Inl (failure, c)
          | Inr kind \<Rightarrow> Inr (Stage K parentObject c (PickedItem picked) kind aScreen)))"
    by (simp add: Stage_picked_item_def Let_def Modified_def status_def)
  then have "keeps c new (state_of (Stage_picked_item K parentObject c picked aModFlag aScreen))"
    using f s m by (cases "convert K status") simp_all
  then show ?thesis
    by (simp add: new_def)
qed

lemma keeps_Stage_picked:
  "exclusive c \<Longrightarrow>
   distinct (filter (\<lambda>p. p \<noteq> nullptr) (map PickedItemLink aItems)) \<Longrightarrow>
   set (map PickedItemLink aItems) \<inter> objects c = {} \<Longrightarrow>
   keeps c (set (map PickedItemLink aItems) - {nullptr})
     (state_of (Stage_picked K parentObject c aItems aModFlag aScreen))"
proof (induction aItems arbitrary: c)
  case Nil
  then show ?case by (simp add: state_of_def keeps_refl)
next
  case (Cons picked aItems)
  have l: "PickedItemLink picked \<notin> objects c"
    using Cons.prems(3) by simp
  note s = keeps_Stage_picked_item [OF Cons.prems(1) l, of K parentObject aModFlag aScreen]
  show ?case
  proof (cases "Stage_picked_item K parentObject c picked aModFlag aScreen")
    case (Inl failure)
    then show ?thesis
      using s by (auto simp: keeps_def)
  next
    case (Inr c')
    then have k: "keeps c ({PickedItemLink picked} - {nullptr}) c'"
      using s by (simp add: state_of_def)
    then have e: "exclusive c'" by (simp add: keeps_def)
    have d: "distinct (filter (\<lambda>p. p \<noteq> nullptr) (map PickedItemLink aItems))"
      using Cons.prems(2) by (simp split: if_splits)
    have n: "nullptr \<notin> objects c'"
      using e by (rule null_no_object)
    have "set (map PickedItemLink aItems) \<inter> objects c' = {}"
    proof (rule ccontr)
      assume "set (map PickedItemLink aItems) \<inter> objects c' \<noteq> {}"
      then obtain p where p: "p \<in> set (map PickedItemLink aItems)" "p \<in> objects c'"
        by blast
      from n p(2) have "p \<noteq> nullptr" by metis
      moreover have "p \<notin> objects c" using p(1) Cons.prems(3) by auto
      ultimately have "p = PickedItemLink picked"
        using p(2) k by (auto simp: keeps_def)
      then show False
        using p(1) \<open>p \<noteq> nullptr\<close> Cons.prems(2) by (auto split: if_splits)
    qed
    from keeps_trans [OF k Cons.IH [OF e d this]] show ?thesis
      using Inr by (auto simp: keeps_def)
  qed
qed

lemma owning_exclusive: "owning K parentObject c \<Longrightarrow> exclusive c"
proof (induction rule: owning.induct)
  case (ctor imgs)
  then show ?case
    by (simp add: exclusive_def COMMIT_ctor_def snapshots_def copies_def coming_def)
next
  case (stage c aItem aChangeType aScreen)
  then show ?case
    using keeps_Stage [of c K parentObject aItem aChangeType aScreen] by (simp add: keeps_def)
next
  case (stage_vector c container aChangeType aScreen)
  then show ?case
    using keeps_Stage_vector [of c K parentObject container aChangeType aScreen]
    by (simp add: keeps_def)
next
  case (modified c aCopy aItem aScreen)
  then show ?case
    using keeps_createModified [of c aCopy K parentObject aItem 0 aScreen]
    by (simp add: keeps_def Modified_def)
next
  case (stage_picked c aItems aModFlag aScreen)
  then show ?case
    using keeps_Stage_picked [of c aItems K parentObject aModFlag aScreen]
    by (simp add: keeps_def)
qed

lemma delete_copies_fields:
  "released (delete_copies changes c) = released c @ copies changes \<and>
   m_changes (delete_copies changes c) = m_changes c \<and>
   m_changedItems (delete_copies changes c) = m_changedItems c \<and>
   images (delete_copies changes c) = images c"
  by (induction changes arbitrary: c) (simp_all add: copies_def delete_def)

lemma distinct_count_list_one: "distinct xs \<Longrightarrow> x \<in> set xs \<Longrightarrow> count_list xs x = 1"
  by (induction xs) auto

text \<open>
  Claim C8. In every ledger of a transaction, finished or not, the destructor releases
  the copies of the records, in their order; after it no object has been released twice,
  and every copy a record still held has been released exactly once.
\<close>

theorem destructor_releases_once:
  assumes "owning K parentObject c"
  shows "released (COMMIT_dtor c) = released c @ snapshots c \<and>
         distinct (released (COMMIT_dtor c)) \<and>
         (\<forall>e \<in> set (m_changes c). m_copy e \<noteq> nullptr \<longrightarrow>
            count_list (released (COMMIT_dtor c)) (m_copy e) = 1)"
proof -
  have r: "released (COMMIT_dtor c) = released c @ snapshots c"
    by (simp add: COMMIT_dtor_def delete_copies_fields snapshots_def)
  have d: "distinct (released (COMMIT_dtor c))"
    using owning_exclusive [OF assms] unfolding r exclusive_def by auto
  have m: "m_copy e \<in> set (released (COMMIT_dtor c))"
    if "e \<in> set (m_changes c)" "m_copy e \<noteq> nullptr" for e
    using that unfolding r by (simp add: snapshots_def copies_def)
  have "\<forall>e \<in> set (m_changes c). m_copy e \<noteq> nullptr \<longrightarrow>
          count_list (released (COMMIT_dtor c)) (m_copy e) = 1"
    using distinct_count_list_one [OF d m] by blast
  with r d show ?thesis
    by blast
qed

theorem destructor_releases_once_witness:
  "owning kicad_change_types (\<lambda>x. x)
     \<lparr>m_changes = [\<lparr>m_item = 5, m_type = 1, m_copy = nullptr, m_screen = 7\<rparr>,
                   \<lparr>m_item = 6, m_type = 4, m_copy = 100, m_screen = 7\<rparr>,
                   \<lparr>m_item = 7, m_type = 4, m_copy = 200, m_screen = 7\<rparr>],
      m_changedItems = {7, 6, 5}, released = [101], images = [], reported = []\<rparr> \<and>
   released (COMMIT_dtor
     \<lparr>m_changes = [\<lparr>m_item = 5, m_type = 1, m_copy = nullptr, m_screen = 7\<rparr>,
                   \<lparr>m_item = 6, m_type = 4, m_copy = 100, m_screen = 7\<rparr>,
                   \<lparr>m_item = 7, m_type = 4, m_copy = 200, m_screen = 7\<rparr>],
      m_changedItems = {7, 6, 5}, released = [101], images = [], reported = []\<rparr>) =
     [101, 100, 200]"
proof -
  let ?c = "\<lparr>m_changes = [\<lparr>m_item = 5, m_type = 1, m_copy = nullptr, m_screen = 7\<rparr>,
                   \<lparr>m_item = 6, m_type = 4, m_copy = 100, m_screen = 7\<rparr>,
                   \<lparr>m_item = 7, m_type = 4, m_copy = 200, m_screen = 7\<rparr>],
      m_changedItems = {7, 6, 5}, released = [101], images = [], reported = []\<rparr>"
  let ?b = "\<lparr>m_changes = [\<lparr>m_item = 5, m_type = 1, m_copy = nullptr, m_screen = 7\<rparr>,
                   \<lparr>m_item = 6, m_type = 4, m_copy = 100, m_screen = 7\<rparr>],
      m_changedItems = {6, 5}, released = [101], images = [], reported = []\<rparr>"
  have 0: "owning kicad_change_types (\<lambda>x. x) (COMMIT_ctor [100, 101])"
    by (rule owning.ctor) simp
  have "?b = Stage kicad_change_types (\<lambda>x. x)
               (Stage kicad_change_types (\<lambda>x. x)
                 (Stage kicad_change_types (\<lambda>x. x) (COMMIT_ctor [100, 101]) 5 1 7) 6 4 7) 6 4 7"
    by (simp add: Stage_def createModified_def makeEntry_def makeImage_def delete_def
        wxASSERT_def kicad_change_types_def COMMIT_ctor_def)
  then have b: "owning kicad_change_types (\<lambda>x. x) ?b"
    using owning.stage [OF owning.stage [OF owning.stage [OF 0]]] by simp
  have n: "200 \<notin> objects ?b"
    by (simp add: objects_def snapshots_def copies_def coming_def)
  have "?c = Modified kicad_change_types (\<lambda>x. x) ?b 7 200 7"
    by (simp add: Modified_def createModified_def makeEntry_def wxASSERT_def
        kicad_change_types_def)
  then have c: "owning kicad_change_types (\<lambda>x. x) ?c"
    using owning.modified [OF b n] by simp
  show ?thesis
    using c destructor_releases_once [OF c]
    by (simp add: snapshots_def copies_def)
qed


end
